theory Spec2Isabelle
  imports Main "HOL-Library.AList"
begin

section \<open>The namespace-partitioned map (NamespacedSyncMap over SyncCache)\<close>

text \<open>
  A \<^verbatim>\<open>SyncCache\<close> wraps a \<^verbatim>\<open>sync.Map\<close>. It is modelled as an association list:
  the order of the list is the order in which one \<^verbatim>\<open>Range\<close> visits the entries, which Go
  leaves unspecified, so a statement about every list is a statement about every
  iteration order. Keys are strings here: the graph only ever stores string keys (the ids
  of nodes and edges), so on its paths the type assertion of \<^verbatim>\<open>Range\<close> cannot fail. The
  generic bulk operation \<^verbatim>\<open>Intersection\<close> is modelled further down on interface keys
  and values, with its panics. \<^verbatim>\<open>Load\<close> is \<open>map_of\<close>,
  \<^verbatim>\<open>Store\<close> overwrites in place or appends, \<^verbatim>\<open>Delete\<close> removes the key.

  The \<^verbatim>\<open>cacheMap\<close> of a \<^verbatim>\<open>NamespacedSyncMap\<close> maps a namespace to a pointer to a
  \<^verbatim>\<open>SyncCache\<close>; indexing it with an absent namespace yields the nil pointer, which is
  \<open>None\<close> here. The locks are not modelled: every operation runs alone.
\<close>

type_synonym 'v SyncCache = "(string \<times> 'v) list"

type_synonym 'v NamespacedSyncMap = "(string \<times> 'v SyncCache) list"

text \<open>
  Modelled from the spec: the type \<^verbatim>\<open>Node\<close> that the bulk operations return is a
  generic key-to-value container (\<^verbatim>\<open>map[string]interface{}\<close>); its declaration and its
  \<^verbatim>\<open>Set\<close> method are not among the sources. \<open>container_Set\<close> inserts or overwrites.
\<close>

type_synonym 'v container = "(string \<times> 'v) list"

definition container_Set :: "'v container \<Rightarrow> string \<Rightarrow> 'v \<Rightarrow> 'v container" where
  "container_Set data k v = AList.update k v data"

text \<open>
  Modelled from the spec: \<^verbatim>\<open>AnyType\<close>, the distinguished wildcard namespace value. Its
  declaration is not among the sources; no theorem below depends on which string it is.
\<close>

definition AnyType :: string where
  "AnyType = ''*''"

datatype panic = NilDereference | HashOfUnhashable | KeyNotString


subsection \<open>SyncCache\<close>

definition newSyncCache :: "'v SyncCache" where
  "newSyncCache = []"

definition SyncCache_Get :: "'v SyncCache \<Rightarrow> string \<Rightarrow> 'v option" where
  "SyncCache_Get c key = map_of c key"

definition SyncCache_Set :: "'v SyncCache \<Rightarrow> string \<Rightarrow> 'v \<Rightarrow> 'v SyncCache" where
  "SyncCache_Set c key val = AList.update key val c"

text \<open>
  A loop over the elements of a collection with a callback that may stop it: \<open>f\<close> is
  called on each element in turn, and the loop ends at the first element on which \<open>f\<close>
  returns false. The effects of the callback are a state \<open>'s\<close> passed along.
\<close>

fun iterate :: "'a list \<Rightarrow> ('a \<Rightarrow> 's \<Rightarrow> bool \<times> 's) \<Rightarrow> 's \<Rightarrow> 's" where
  "iterate [] f s = s"
| "iterate (x # xs) f s =
     (let (continue, s') = f x s
      in if continue then iterate xs f s' else s')"

definition SyncCache_Range :: "'v SyncCache \<Rightarrow> (string \<Rightarrow> 'v \<Rightarrow> 's \<Rightarrow> bool \<times> 's) \<Rightarrow> 's \<Rightarrow> 's" where
  "SyncCache_Range c f s = iterate c (\<lambda>(key, val). f key val) s"

definition SyncCache_Delete :: "'v SyncCache \<Rightarrow> string \<Rightarrow> 'v SyncCache" where
  "SyncCache_Delete c key = AList.delete key c"

definition SyncCache_Len :: "'v SyncCache \<Rightarrow> nat" where
  "SyncCache_Len c = SyncCache_Range c (\<lambda>key val i. (True, i + 1)) 0"

definition SyncCache_Exists :: "'v SyncCache \<Rightarrow> string \<Rightarrow> bool" where
  "SyncCache_Exists c key = (case SyncCache_Get c key of Some _ \<Rightarrow> True | None \<Rightarrow> False)"

definition SyncCache_Map :: "'v SyncCache \<Rightarrow> 'v container" where
  "SyncCache_Map c = SyncCache_Range c (\<lambda>key val data. (True, container_Set data key val)) []"

subsection \<open>NamespacedSyncMap\<close>

definition newCacheMap :: "'v NamespacedSyncMap" where
  "newCacheMap = []"

text \<open>
  A method that reads \<^verbatim>\<open>c.data\<close> through a nil \<^verbatim>\<open>*SyncCache\<close> panics with a nil
  pointer dereference.
\<close>

definition deref :: "'v SyncCache option \<Rightarrow> panic + 'v SyncCache" where
  "deref p = (case p of None \<Rightarrow> Inl NilDereference | Some c \<Rightarrow> Inr c)"

definition NamespacedSyncMap_Len :: "'v NamespacedSyncMap \<Rightarrow> string \<Rightarrow> nat" where
  "NamespacedSyncMap_Len n namespace =
     (case map_of n namespace of Some c \<Rightarrow> SyncCache_Len c | None \<Rightarrow> 0)"

definition NamespacedSyncMap_Namespaces :: "'v NamespacedSyncMap \<Rightarrow> string list" where
  "NamespacedSyncMap_Namespaces n = map fst n"

definition NamespacedSyncMap_Get :: "'v NamespacedSyncMap \<Rightarrow> string \<Rightarrow> string \<Rightarrow> 'v option" where
  "NamespacedSyncMap_Get n namespace key =
     (case map_of n namespace of Some c \<Rightarrow> SyncCache_Get c key | None \<Rightarrow> None)"

definition NamespacedSyncMap_Set ::
  "'v NamespacedSyncMap \<Rightarrow> string \<Rightarrow> string \<Rightarrow> 'v \<Rightarrow> 'v NamespacedSyncMap" where
  "NamespacedSyncMap_Set n namespace key val =
     (let n' = (case map_of n namespace of
                  None \<Rightarrow> AList.update namespace newSyncCache n
                | Some _ \<Rightarrow> n)
      in case map_of n' namespace of
           Some c \<Rightarrow> AList.update namespace (SyncCache_Set c key val) n'
         | None \<Rightarrow> n')"

definition NamespacedSyncMap_Range ::
  "'v NamespacedSyncMap \<Rightarrow> string \<Rightarrow> (string \<Rightarrow> 'v \<Rightarrow> 's \<Rightarrow> bool \<times> 's) \<Rightarrow> 's \<Rightarrow> 's" where
  "NamespacedSyncMap_Range n namespace f s =
     (if namespace = AnyType
      then fold (\<lambda>(_, c) s'. SyncCache_Range c f s') n s
      else (case map_of n namespace of Some c \<Rightarrow> SyncCache_Range c f s | None \<Rightarrow> s))"

definition NamespacedSyncMap_Delete ::
  "'v NamespacedSyncMap \<Rightarrow> string \<Rightarrow> string \<Rightarrow> 'v NamespacedSyncMap" where
  "NamespacedSyncMap_Delete n namespace key =
     (case map_of n namespace of
        Some c \<Rightarrow> AList.update namespace (SyncCache_Delete c key) n
      | None \<Rightarrow> n)"

definition NamespacedSyncMap_Exists :: "'v NamespacedSyncMap \<Rightarrow> string \<Rightarrow> string \<Rightarrow> panic + bool" where
  "NamespacedSyncMap_Exists n namespace key =
     (case deref (map_of n namespace) of
        Inl p \<Rightarrow> Inl p
      | Inr c \<Rightarrow> Inr (SyncCache_Exists c key))"

definition NamespacedSyncMap_Map :: "'v NamespacedSyncMap \<Rightarrow> string \<Rightarrow> panic + 'v container" where
  "NamespacedSyncMap_Map n namespace =
     (case deref (map_of n namespace) of
        Inl p \<Rightarrow> Inl p
      | Inr c \<Rightarrow> Inr (SyncCache_Map c))"

subsection \<open>Intersection, on interface values\<close>








section \<open>The graph\<close>

text \<open>
  Modelled from the spec: the declarations of \<^verbatim>\<open>TypedID\<close>, \<^verbatim>\<open>Node\<close> and
  \<^verbatim>\<open>Edge\<close> are not among the sources. A TypedID is a pair of a type and an id. A node
  has a type, an id and an opaque attribute payload; an edge has its own type and id, a
  payload, and the TypedIDs of its two endpoints. Nodes and edges are values here: a caller
  that changes a node or an edge after it was stored is outside the model.
\<close>

datatype TypedID = TypedID (tType: string) (tID: string)

record Node =
  n_type :: string
  n_id :: string
  n_attrs :: "(string \<times> string) list"

record Edge =
  e_type :: string
  e_id :: string
  e_attrs :: "(string \<times> string) list"
  From :: TypedID
  To :: TypedID

definition Node_TypedID :: "Node \<Rightarrow> TypedID" where
  "Node_TypedID n = TypedID (n_type n) (n_id n)"

definition Edge_TypedID :: "Edge \<Rightarrow> TypedID" where
  "Edge_TypedID e = TypedID (e_type e) (e_id e)"

datatype error = ValidationError | NotFoundError TypedID

text \<open>
  Modelled from the spec: \<^verbatim>\<open>Edge.Validate\<close> is not among the sources. The spec:
  \<^emph>\<open>fails with a validation error if type, From, or To is empty\<close>. An endpoint is
  empty when it is the zero TypedID, with no type and no id.
\<close>

definition TypedID_empty :: "TypedID \<Rightarrow> bool" where
  "TypedID_empty t = (tType t = '''' \<and> tID t = '''')"

definition Validate :: "Edge \<Rightarrow> error option" where
  "Validate e =
     (if e_type e = '''' \<or> TypedID_empty (From e) \<or> TypedID_empty (To e)
      then Some ValidationError else None)"

subsection \<open>The adjacency list\<close>

text \<open>
  Modelled from the spec: the type \<^verbatim>\<open>edgeMap\<close> and its methods \<^verbatim>\<open>AddEdge\<close>,
  \<^verbatim>\<open>DelEdge\<close>, \<^verbatim>\<open>Range\<close> and \<^verbatim>\<open>RangeType\<close> are not among the sources. The spec:
  a per-node grouping of edges by edge type; \<^emph>\<open>Add(edge): inserts, keyed by edge id,
  grouped under the edge's type. Delete(id): removes by edge id regardless of type
  grouping; no-op if absent. RangeByType(type, fn): iterate edges of one type, or all types
  under the wildcard; early-stop supported.\<close> The argument of \<^verbatim>\<open>DelEdge\<close> is a TypedID:
  the entry removed is the one with that type and id, and no other entry changes.
\<close>

type_synonym edgeMap = "(string \<times> (string \<times> Edge) list) list"

definition edgeMap_edges :: "edgeMap \<Rightarrow> Edge list" where
  "edgeMap_edges em = map snd (concat (map snd em))"

definition edgeMap_AddEdge :: "edgeMap \<Rightarrow> Edge \<Rightarrow> edgeMap" where
  "edgeMap_AddEdge em e =
     (case map_of em (e_type e) of
        None \<Rightarrow> AList.update (e_type e) [(e_id e, e)] em
      | Some m \<Rightarrow> AList.update (e_type e) (AList.update (e_id e) e m) em)"

definition edgeMap_DelEdge :: "edgeMap \<Rightarrow> TypedID \<Rightarrow> edgeMap" where
  "edgeMap_DelEdge em tid =
     (case map_of em (tType tid) of
        None \<Rightarrow> em
      | Some m \<Rightarrow> AList.update (tType tid) (AList.delete (tID tid) m) em)"

definition edgeMap_Range :: "edgeMap \<Rightarrow> (Edge \<Rightarrow> 's \<Rightarrow> bool \<times> 's) \<Rightarrow> 's \<Rightarrow> 's" where
  "edgeMap_Range em fn s = iterate (edgeMap_edges em) fn s"

definition edgeMap_RangeType :: "edgeMap \<Rightarrow> string \<Rightarrow> (Edge \<Rightarrow> 's \<Rightarrow> bool \<times> 's) \<Rightarrow> 's \<Rightarrow> 's" where
  "edgeMap_RangeType em typ fn s =
     (if typ = AnyType then iterate (edgeMap_edges em) fn s
      else (case map_of em typ of
              None \<Rightarrow> s
            | Some m \<Rightarrow> iterate (map snd m) fn s))"

subsection \<open>Graph\<close>

record Graph =
  nodes :: "Node NamespacedSyncMap"
  edges :: "Edge NamespacedSyncMap"
  edgesFrom :: "edgeMap NamespacedSyncMap"
  edgesTo :: "edgeMap NamespacedSyncMap"

definition NewGraphCacheMap :: Graph where
  "NewGraphCacheMap =
     \<lparr>nodes = newCacheMap, edges = newCacheMap, edgesFrom = newCacheMap, edgesTo = newCacheMap\<rparr>"

text \<open>
  The identifier generator \<^verbatim>\<open>UUID\<close> is an external collaborator. An operation that may
  call it takes as its first argument \<open>uuid\<close>, the string the generator yields if it is
  called there; nothing is assumed about that string.
\<close>

definition AddNode :: "string \<Rightarrow> Graph \<Rightarrow> Node \<Rightarrow> Graph" where
  "AddNode uuid g n =
     (let n' = (if n_id n = '''' then n\<lparr>n_id := uuid\<rparr> else n)
      in g\<lparr>nodes := NamespacedSyncMap_Set (nodes g) (n_type n') (n_id n') n'\<rparr>)"

definition GetNode :: "Graph \<Rightarrow> TypedID \<Rightarrow> Node option" where
  "GetNode g tid = NamespacedSyncMap_Get (nodes g) (tType tid) (tID tid)"

definition HasNode :: "Graph \<Rightarrow> TypedID \<Rightarrow> bool" where
  "HasNode g tid = (case GetNode g tid of Some _ \<Rightarrow> True | None \<Rightarrow> False)"

definition RangeNodeTypes :: "Graph \<Rightarrow> string \<Rightarrow> (Node \<Rightarrow> 's \<Rightarrow> bool \<times> 's) \<Rightarrow> 's \<Rightarrow> 's" where
  "RangeNodeTypes g typ fn s = NamespacedSyncMap_Range (nodes g) typ (\<lambda>key val. fn val) s"

definition RangeNodes :: "Graph \<Rightarrow> (Node \<Rightarrow> 's \<Rightarrow> bool \<times> 's) \<Rightarrow> 's \<Rightarrow> 's" where
  "RangeNodes g fn s =
     fold (\<lambda>namespace s'. NamespacedSyncMap_Range (nodes g) namespace (\<lambda>key val. fn val) s')
       (NamespacedSyncMap_Namespaces (nodes g)) s"

definition RangeEdges :: "Graph \<Rightarrow> (Edge \<Rightarrow> 's \<Rightarrow> bool \<times> 's) \<Rightarrow> 's \<Rightarrow> 's" where
  "RangeEdges g fn s =
     fold (\<lambda>namespace s'. NamespacedSyncMap_Range (edges g) namespace (\<lambda>key val. fn val) s')
       (NamespacedSyncMap_Namespaces (edges g)) s"

definition GetEdge :: "Graph \<Rightarrow> TypedID \<Rightarrow> Edge option" where
  "GetEdge g tid = NamespacedSyncMap_Get (edges g) (tType tid) (tID tid)"

definition HasEdge :: "Graph \<Rightarrow> TypedID \<Rightarrow> bool" where
  "HasEdge g tid = (case GetEdge g tid of Some _ \<Rightarrow> True | None \<Rightarrow> False)"

definition DelEdge :: "Graph \<Rightarrow> TypedID \<Rightarrow> Graph" where
  "DelEdge g tid =
     (let g2 =
        (case NamespacedSyncMap_Get (edges g) (tType tid) (tID tid) of
           None \<Rightarrow> g
         | Some edge \<Rightarrow>
            (let g1 =
               (case NamespacedSyncMap_Get (edgesFrom g) (tType (From edge)) (tID (From edge)) of
                  None \<Rightarrow> g
                | Some em \<Rightarrow>
                    g\<lparr>edgesFrom := NamespacedSyncMap_Set (edgesFrom g)
                         (tType (From edge)) (tID (From edge)) (edgeMap_DelEdge em tid)\<rparr>)
             in (case NamespacedSyncMap_Get (edgesTo g1) (tType (To edge)) (tID (To edge)) of
                   None \<Rightarrow> g1
                 | Some em \<Rightarrow>
                     g1\<lparr>edgesTo := NamespacedSyncMap_Set (edgesTo g1)
                          (tType (To edge)) (tID (To edge)) (edgeMap_DelEdge em tid)\<rparr>)))
      in g2\<lparr>edges := NamespacedSyncMap_Delete (edges g2) (tType tid) (tID tid)\<rparr>)"

text \<open>
  \<^verbatim>\<open>DelNode\<close> ranges over the outbound adjacency list it read from \<^verbatim>\<open>edgesFrom\<close> and
  calls \<^verbatim>\<open>DelEdge\<close> on every edge in it; the callback never stops the loop.
\<close>

definition DelNode :: "Graph \<Rightarrow> TypedID \<Rightarrow> Graph" where
  "DelNode g tid =
     (let g1 =
        (case NamespacedSyncMap_Get (edgesFrom g) (tType tid) (tID tid) of
           None \<Rightarrow> g
         | Some em \<Rightarrow> edgeMap_Range em (\<lambda>e g'. (True, DelEdge g' (Edge_TypedID e))) g)
      in g1\<lparr>nodes := NamespacedSyncMap_Delete (nodes g1) (tType tid) (tID tid)\<rparr>)"

definition AddEdge :: "string \<Rightarrow> Graph \<Rightarrow> Edge \<Rightarrow> Graph \<times> error option" where
  "AddEdge uuid g e0 =
     (let e = (if e_id e0 = '''' then e0\<lparr>e_id := uuid\<rparr> else e0)
      in case Validate e of
           Some err \<Rightarrow> (g, Some err)
         | None \<Rightarrow>
            if \<not> HasNode g (From e) then (g, Some (NotFoundError (From e)))
            else if \<not> HasNode g (To e) then (g, Some (NotFoundError (To e)))
            else
              (let g1 = g\<lparr>edges := NamespacedSyncMap_Set (edges g) (e_type e) (e_id e) e\<rparr>;
                   g2 = (case NamespacedSyncMap_Get (edgesFrom g1) (tType (From e)) (tID (From e)) of
                           Some em \<Rightarrow>
                             g1\<lparr>edgesFrom := NamespacedSyncMap_Set (edgesFrom g1)
                                  (tType (From e)) (tID (From e)) (edgeMap_AddEdge em e)\<rparr>
                         | None \<Rightarrow>
                             g1\<lparr>edgesFrom := NamespacedSyncMap_Set (edgesFrom g1)
                                  (tType (From e)) (tID (From e)) (edgeMap_AddEdge [] e)\<rparr>);
                   g3 = (case NamespacedSyncMap_Get (edgesTo g2) (tType (To e)) (tID (To e)) of
                           Some em \<Rightarrow>
                             g2\<lparr>edgesTo := NamespacedSyncMap_Set (edgesTo g2)
                                  (tType (To e)) (tID (To e)) (edgeMap_AddEdge em e)\<rparr>
                         | None \<Rightarrow>
                             g2\<lparr>edgesTo := NamespacedSyncMap_Set (edgesTo g2)
                                  (tType (To e)) (tID (To e)) (edgeMap_AddEdge [] e)\<rparr>)
               in (g3, None)))"

definition EdgesFrom :: "Graph \<Rightarrow> string \<Rightarrow> TypedID \<Rightarrow> (Edge \<Rightarrow> 's \<Rightarrow> bool \<times> 's) \<Rightarrow> 's \<Rightarrow> 's" where
  "EdgesFrom g edgeType tid fn s =
     (case NamespacedSyncMap_Get (edgesFrom g) (tType tid) (tID tid) of
        Some em \<Rightarrow> edgeMap_RangeType em edgeType fn s
      | None \<Rightarrow> s)"

definition EdgesTo :: "Graph \<Rightarrow> string \<Rightarrow> TypedID \<Rightarrow> (Edge \<Rightarrow> 's \<Rightarrow> bool \<times> 's) \<Rightarrow> 's \<Rightarrow> 's" where
  "EdgesTo g edgeType tid fn s =
     (case NamespacedSyncMap_Get (edgesTo g) (tType tid) (tID tid) of
        Some em \<Rightarrow> edgeMap_RangeType em edgeType fn s
      | None \<Rightarrow> s)"

subsection \<open>Recording callbacks\<close>

text \<open>
  Two callbacks that record the element they are called on: \<open>collect\<close> asks the loop to
  go on (the callbacks of \<^verbatim>\<open>Export\<close> are of this kind), \<open>refuse\<close> asks it to stop.
\<close>

definition collect :: "'a \<Rightarrow> 'a list \<Rightarrow> bool \<times> 'a list" where
  "collect x acc = (True, acc @ [x])"

definition refuse :: "'a \<Rightarrow> 'a list \<Rightarrow> bool \<times> 'a list" where
  "refuse x acc = (False, acc @ [x])"

subsection \<open>Export and Import\<close>

text \<open>
  Modelled from the spec: the struct \<^verbatim>\<open>Export\<close> is not among the sources; it is the
  snapshot, an ordered sequence of nodes and an ordered sequence of edges.
\<close>

record Snapshot =
  Nodes :: "Node list"
  Edges :: "Edge list"

definition Export :: "Graph \<Rightarrow> Snapshot" where
  "Export g =
     \<lparr>Nodes = RangeNodes g collect [], Edges = RangeEdges g collect []\<rparr>"

text \<open>
  The two loops of \<^verbatim>\<open>Import\<close>. \<open>ids i\<close> is the string the identifier generator yields
  if it is called while element number \<open>i\<close> of the snapshot (nodes first, then edges) is
  added. The error that \<^verbatim>\<open>AddEdge\<close> returns is dropped.
\<close>

fun Import_nodes :: "(nat \<Rightarrow> string) \<Rightarrow> nat \<Rightarrow> Graph \<Rightarrow> Node list \<Rightarrow> Graph" where
  "Import_nodes ids i g [] = g"
| "Import_nodes ids i g (n # ns) = Import_nodes ids (Suc i) (AddNode (ids i) g n) ns"

fun Import_edges :: "(nat \<Rightarrow> string) \<Rightarrow> nat \<Rightarrow> Graph \<Rightarrow> Edge list \<Rightarrow> Graph" where
  "Import_edges ids i g [] = g"
| "Import_edges ids i g (e # es) = Import_edges ids (Suc i) (fst (AddEdge (ids i) g e)) es"

definition Import :: "(nat \<Rightarrow> string) \<Rightarrow> Graph \<Rightarrow> Snapshot \<Rightarrow> Graph \<times> error option" where
  "Import ids g exp =
     (let g1 = Import_nodes ids 0 g (Nodes exp);
          g2 = Import_edges ids (length (Nodes exp)) g1 (Edges exp)
      in (g2, None))"

section \<open>Example data\<close>




definition ex_cache :: "string NamespacedSyncMap" where
  "ex_cache = [(''a'', [(''k'', ''v'')])]"



definition nodeA :: Node where
  "nodeA = \<lparr>n_type = ''user'', n_id = ''A'', n_attrs = []\<rparr>"

definition nodeB :: Node where
  "nodeB = \<lparr>n_type = ''user'', n_id = ''B'', n_attrs = []\<rparr>"

definition nodeC :: Node where
  "nodeC = \<lparr>n_type = ''dog'', n_id = ''C'', n_attrs = []\<rparr>"

definition edgeAB :: Edge where
  "edgeAB = \<lparr>e_type = ''friend'', e_id = ''1'', e_attrs = [],
              From = TypedID ''user'' ''A'', To = TypedID ''user'' ''B''\<rparr>"

definition edgeAC :: Edge where
  "edgeAC = \<lparr>e_type = ''pet'', e_id = ''2'', e_attrs = [],
              From = TypedID ''user'' ''A'', To = TypedID ''dog'' ''C''\<rparr>"

text \<open>The graph with the nodes A, B (users) and C (a dog), and then with two edges.\<close>

definition graph_nodes :: Graph where
  "graph_nodes = AddNode ''x'' (AddNode ''x'' (AddNode ''x'' NewGraphCacheMap nodeA) nodeB) nodeC"

definition graph_two_edges :: Graph where
  "graph_two_edges = fst (AddEdge ''x'' (fst (AddEdge ''x'' graph_nodes edgeAB)) edgeAC)"

text \<open>
  The edge as \<^verbatim>\<open>AddEdge\<close> leaves it: an edge that came without an id has the
  generated one. The adjacency list stored for a node in one of the two adjacency indices
  is empty when the index has no entry for the node.
\<close>

definition with_id :: "string \<Rightarrow> Edge \<Rightarrow> Edge" where
  "with_id uuid e = (if e_id e = '''' then e\<lparr>e_id := uuid\<rparr> else e)"

definition adjacency :: "edgeMap NamespacedSyncMap \<Rightarrow> TypedID \<Rightarrow> edgeMap" where
  "adjacency idx tid =
     (case NamespacedSyncMap_Get idx (tType tid) (tID tid) of Some em \<Rightarrow> em | None \<Rightarrow> [])"

definition edgeAZ :: Edge where
  "edgeAZ = \<lparr>e_type = ''pet'', e_id = '''', e_attrs = [],
              From = TypedID ''user'' ''A'', To = TypedID ''dog'' ''Z''\<rparr>"

section \<open>Sequences of operations and the consistency of the indices\<close>

text \<open>
  The four structural operations as data, each with the string the identifier generator
  would yield in it, and the graph that a sequence of them builds from the empty graph.
\<close>

datatype op = OpAddNode string Node | OpAddEdge string Edge | OpDelNode TypedID | OpDelEdge TypedID

fun apply_op :: "Graph \<Rightarrow> op \<Rightarrow> Graph" where
  "apply_op g (OpAddNode uuid n) = AddNode uuid g n"
| "apply_op g (OpAddEdge uuid e) = fst (AddEdge uuid g e)"
| "apply_op g (OpDelNode tid) = DelNode g tid"
| "apply_op g (OpDelEdge tid) = DelEdge g tid"

definition run :: "op list \<Rightarrow> Graph" where
  "run ops = foldl apply_op NewGraphCacheMap ops"

text \<open>
  The edges of the edges map; the edges of an adjacency index, each with the node under
  which it is listed; the nodes under which an index lists a given edge. The indices are
  consistent when every stored edge is listed under exactly one node of \<open>edgesFrom\<close>, its
  From endpoint, and under exactly one node of \<open>edgesTo\<close>, its To endpoint, and every
  listed edge is stored.
\<close>

definition stored_edges :: "Graph \<Rightarrow> Edge list" where
  "stored_edges g = map snd (concat (map snd (edges g)))"

definition adjacency_entries :: "edgeMap NamespacedSyncMap \<Rightarrow> (TypedID \<times> Edge) list" where
  "adjacency_entries idx =
     concat (map (\<lambda>(ns, c).
       concat (map (\<lambda>(k, em). map (\<lambda>e. (TypedID ns k, e)) (edgeMap_edges em)) c)) idx)"

definition holders :: "edgeMap NamespacedSyncMap \<Rightarrow> Edge \<Rightarrow> TypedID list" where
  "holders idx e = map fst (filter (\<lambda>(tid, e'). e' = e) (adjacency_entries idx))"

definition indices_consistent :: "Graph \<Rightarrow> bool" where
  "indices_consistent g =
     ((\<forall>e \<in> set (stored_edges g).
          holders (edgesFrom g) e = [From e] \<and> holders (edgesTo g) e = [To e])
      \<and> (\<forall>(tid, e) \<in> set (adjacency_entries (edgesFrom g) @ adjacency_entries (edgesTo g)).
            e \<in> set (stored_edges g)))"

text \<open>
  An edge with the type and id of \<open>edgeAB\<close> and other endpoints, and two sequences of
  operations that add it after \<open>edgeAB\<close>.
\<close>

definition edgeBC :: Edge where
  "edgeBC = \<lparr>e_type = ''friend'', e_id = ''1'', e_attrs = [],
              From = TypedID ''user'' ''B'', To = TypedID ''dog'' ''C''\<rparr>"

definition ops_reuse :: "op list" where
  "ops_reuse = [OpAddNode ''x'' nodeA, OpAddNode ''x'' nodeB, OpAddNode ''x'' nodeC,
                OpAddEdge ''x'' edgeAB, OpAddEdge ''x'' edgeBC]"

definition ops_stale :: "op list" where
  "ops_stale = ops_reuse @ [OpDelNode (TypedID ''user'' ''A''), OpAddEdge ''x'' edgeBC]"

text \<open>
  What a caller that skips a failing edge computes: the graph with the edge added when
  \<^verbatim>\<open>AddEdge\<close> returns no error, the graph as it was otherwise. A snapshot whose first
  edge names a node that does not exist.
\<close>

definition add_or_skip :: "string \<Rightarrow> Graph \<Rightarrow> Edge \<Rightarrow> Graph" where
  "add_or_skip uuid g e = (case AddEdge uuid g e of (g', None) \<Rightarrow> g' | (g', Some err) \<Rightarrow> g)"

definition snapshot_bad_edge :: Snapshot where
  "snapshot_bad_edge = \<lparr>Nodes = [nodeA, nodeB, nodeC], Edges = [edgeAZ, edgeAC]\<rparr>"

section \<open>Well-formed graphs\<close>

text \<open>
  The entries of a namespace-partitioned map, each under the TypedID made of its namespace
  and key. A graph is well formed when no namespace of \<open>nodes\<close> or \<open>edges\<close> occurs
  twice (they are Go maps), every node and edge is stored under its own type and id, no
  stored id is empty and every stored edge passes \<^verbatim>\<open>Validate\<close>. Every graph built by the
  operations is well formed as long as the identifier generator never yields the empty
  string (\<open>uuid_nonempty\<close>).
\<close>

definition all_entries :: "'v NamespacedSyncMap \<Rightarrow> (TypedID \<times> 'v) list" where
  "all_entries n = concat (map (\<lambda>(ns, c). map (\<lambda>(k, v). (TypedID ns k, v)) c) n)"

definition entries_ok :: "(TypedID \<times> 'v \<Rightarrow> bool) \<Rightarrow> 'v NamespacedSyncMap \<Rightarrow> bool" where
  "entries_ok P n = (distinct (map fst n) \<and> list_all P (all_entries n))"

definition node_entry_ok :: "TypedID \<times> Node \<Rightarrow> bool" where
  "node_entry_ok x = (Node_TypedID (snd x) = fst x \<and> n_id (snd x) \<noteq> '''')"

definition edge_entry_ok :: "TypedID \<times> Edge \<Rightarrow> bool" where
  "edge_entry_ok x = (Edge_TypedID (snd x) = fst x \<and> e_id (snd x) \<noteq> '''' \<and> Validate (snd x) = None)"

definition graph_wf :: "Graph \<Rightarrow> bool" where
  "graph_wf g = (entries_ok node_entry_ok (nodes g) \<and> entries_ok edge_entry_ok (edges g))"

fun uuid_nonempty :: "op \<Rightarrow> bool" where
  "uuid_nonempty (OpAddNode uuid n) = (uuid \<noteq> '''')"
| "uuid_nonempty (OpAddEdge uuid e) = (uuid \<noteq> '''')"
| "uuid_nonempty (OpDelNode tid) = True"
| "uuid_nonempty (OpDelEdge tid) = True"

definition ops_two_edges :: "op list" where
  "ops_two_edges = [OpAddNode ''x'' nodeA, OpAddNode ''x'' nodeB, OpAddNode ''x'' nodeC,
                    OpAddEdge ''x'' edgeAB, OpAddEdge ''x'' edgeAC]"

section \<open>Adjacency lists that agree with the edges map\<close>

text \<open>
  An adjacency list is well formed when no edge type names two groups and every edge is
  listed under its own type and id. An edge is unlisted in a graph when the edges map has
  nothing under its type and id and neither the outbound list of its From endpoint nor the
  inbound list of its To endpoint lists an edge of that type and id.
\<close>

definition edgeMap_wf :: "edgeMap \<Rightarrow> bool" where
  "edgeMap_wf em =
     (distinct (map fst em)
      \<and> list_all (\<lambda>(t, m). list_all (\<lambda>(k, e). e_type e = t \<and> e_id e = k) m) em)"

definition unlisted :: "Graph \<Rightarrow> Edge \<Rightarrow> bool" where
  "unlisted g e =
     (GetEdge g (Edge_TypedID e) = None
      \<and> list_all (\<lambda>e'. Edge_TypedID e' \<noteq> Edge_TypedID e) (edgeMap_edges (adjacency (edgesFrom g) (From e)))
      \<and> list_all (\<lambda>e'. Edge_TypedID e' \<noteq> Edge_TypedID e) (edgeMap_edges (adjacency (edgesTo g) (To e))))"

section \<open>Properties of the namespace-partitioned map\<close>

lemma iterate_collect: "iterate xs collect acc = acc @ xs"
  by (induction xs arbitrary: acc) (simp_all add: collect_def)

lemma Get_Set:
  "NamespacedSyncMap_Get (NamespacedSyncMap_Set n ns k v) ns' k' =
     (if ns' = ns \<and> k' = k then Some v else NamespacedSyncMap_Get n ns' k')"
  by (simp add: NamespacedSyncMap_Get_def NamespacedSyncMap_Set_def SyncCache_Get_def
      SyncCache_Set_def newSyncCache_def update_conv' Let_def split: option.splits)

lemma Get_Delete:
  "NamespacedSyncMap_Get (NamespacedSyncMap_Delete n ns k) ns' k' =
     (if ns' = ns \<and> k' = k then None else NamespacedSyncMap_Get n ns' k')"
  by (simp add: NamespacedSyncMap_Get_def NamespacedSyncMap_Delete_def SyncCache_Get_def
      SyncCache_Delete_def update_conv' delete_conv' split: option.splits)

lemma Delete_absent:
  assumes "NamespacedSyncMap_Get n ns k = None"
  shows "NamespacedSyncMap_Delete n ns k = n"
proof (cases "map_of n ns")
  case None
  then show ?thesis by (simp add: NamespacedSyncMap_Delete_def)
next
  case (Some c)
  with assms have "map_of c k = None"
    by (simp add: NamespacedSyncMap_Get_def SyncCache_Get_def)
  then have "k \<notin> fst ` set c" by (simp add: map_of_eq_None_iff)
  then have "AList.delete k c = c" by simp
  with Some show ?thesis
    by (simp add: NamespacedSyncMap_Delete_def SyncCache_Delete_def update_triv)
qed

lemma SyncCache_Len_length: "SyncCache_Len c = length c"
proof -
  have "iterate c (\<lambda>(key, val) i. (True, i + 1)) i = i + length c" for i :: nat
    by (induction c arbitrary: i) auto
  then show ?thesis by (simp add: SyncCache_Len_def SyncCache_Range_def)
qed

lemma SyncCache_Exists_keys: "SyncCache_Exists c key = (key \<in> fst ` set c)"
  using map_of_eq_None_iff[of c key]
  by (cases "map_of c key") (simp_all add: SyncCache_Exists_def SyncCache_Get_def)


subsection \<open>A namespace that was never written\<close>

text \<open>
  C9, as amended. A namespace that was never written has no entry in \<^verbatim>\<open>cacheMap\<close>.
  On such a namespace \<^verbatim>\<open>Exists\<close> and \<^verbatim>\<open>Map\<close> call a method on the nil sub-map and
  panic with a nil dereference, while \<^verbatim>\<open>Get\<close> reports not found, \<^verbatim>\<open>Len\<close> is 0,
  \<^verbatim>\<open>Delete\<close> changes nothing and, unless the namespace is the wildcard, \<^verbatim>\<open>Range\<close>
  calls its callback on nothing.
\<close>

theorem absent_namespace_behaviour:
  "namespace \<notin> set (NamespacedSyncMap_Namespaces n) \<Longrightarrow>
     NamespacedSyncMap_Exists n namespace key = Inl NilDereference
   \<and> NamespacedSyncMap_Map n namespace = Inl NilDereference
   \<and> NamespacedSyncMap_Get n namespace key = None
   \<and> NamespacedSyncMap_Len n namespace = 0
   \<and> NamespacedSyncMap_Delete n namespace key = n
   \<and> (namespace \<noteq> AnyType \<longrightarrow> NamespacedSyncMap_Range n namespace f s = s)"
proof -
  assume "namespace \<notin> set (NamespacedSyncMap_Namespaces n)"
  then have "map_of n namespace = None"
    by (simp add: NamespacedSyncMap_Namespaces_def map_of_eq_None_iff)
  then show ?thesis
    by (simp add: NamespacedSyncMap_Exists_def NamespacedSyncMap_Map_def deref_def
        NamespacedSyncMap_Get_def NamespacedSyncMap_Len_def NamespacedSyncMap_Delete_def
        NamespacedSyncMap_Range_def)
qed

theorem absent_namespace_behaviour_witness:
  "''b'' \<notin> set (NamespacedSyncMap_Namespaces ex_cache)
   \<and> ''b'' \<noteq> AnyType
   \<and> NamespacedSyncMap_Exists ex_cache ''b'' ''k'' = Inl NilDereference
   \<and> NamespacedSyncMap_Map ex_cache ''b'' = Inl NilDereference
   \<and> NamespacedSyncMap_Get ex_cache ''b'' ''k'' = None
   \<and> NamespacedSyncMap_Len ex_cache ''b'' = 0
   \<and> NamespacedSyncMap_Delete ex_cache ''b'' ''k'' = ex_cache
   \<and> NamespacedSyncMap_Range ex_cache ''b'' (\<lambda>key. collect) [] = []"
proof -
  have h: "''b'' \<notin> set (NamespacedSyncMap_Namespaces ex_cache)"
    by (simp add: NamespacedSyncMap_Namespaces_def ex_cache_def)
  have w: "''b'' \<noteq> AnyType"
    by (simp add: AnyType_def)
  from absent_namespace_behaviour[OF h, of "''k''" "\<lambda>key. collect" "[]"] h w
  show ?thesis by simp
qed

text \<open>
  C9 as stated fails for \<^verbatim>\<open>Range\<close> at the wildcard: no namespace of the example map
  is the wildcard, yet \<^verbatim>\<open>Range\<close> on the wildcard visits the entry of namespace \<open>a\<close>.
\<close>

theorem absent_wildcard_counterexample:
  "AnyType \<notin> set (NamespacedSyncMap_Namespaces ex_cache)
   \<and> NamespacedSyncMap_Range ex_cache AnyType (\<lambda>key. collect) [] = [''v'']"
  by (simp add: NamespacedSyncMap_Namespaces_def AnyType_def NamespacedSyncMap_Range_def
      SyncCache_Range_def collect_def ex_cache_def)

subsection \<open>Intersection\<close>








subsection \<open>The stop signal in an iteration over all entries\<close>

text \<open>
  C5 fails on the code. The callback \<open>refuse\<close> returns the stop signal at its first call.
  \<^verbatim>\<open>RangeNodes\<close>, \<^verbatim>\<open>RangeEdges\<close> and \<^verbatim>\<open>Range\<close> on the wildcard namespace end the
  loop over the current namespace only, and call it again on the first entry of the next
  namespace.
\<close>

theorem stop_signal_ignored_across_namespaces:
  "RangeNodes graph_two_edges refuse [] = [nodeA, nodeC]
   \<and> RangeEdges graph_two_edges refuse [] = [edgeAB, edgeAC]
   \<and> NamespacedSyncMap_Range (nodes graph_two_edges) AnyType (\<lambda>key. refuse) [] = [nodeA, nodeC]"
  by code_simp

section \<open>Properties of AddEdge\<close>

lemma Validate_with_id:
  "Validate (with_id uuid e) =
     (if e_type e = '''' \<or> TypedID_empty (From e) \<or> TypedID_empty (To e)
      then Some ValidationError else None)"
  by (simp add: Validate_def with_id_def)

lemma with_id_ends [simp]:
  "From (with_id uuid e) = From e" "To (with_id uuid e) = To e" "e_type (with_id uuid e) = e_type e"
  by (simp_all add: with_id_def)

lemma AddEdge_ok:
  assumes "e_type e \<noteq> ''''" "\<not> TypedID_empty (From e)" "\<not> TypedID_empty (To e)"
    and "HasNode g (From e)" "HasNode g (To e)"
  shows "AddEdge uuid g e =
     (g\<lparr>edges := NamespacedSyncMap_Set (edges g) (e_type e) (e_id (with_id uuid e)) (with_id uuid e),
        edgesFrom := NamespacedSyncMap_Set (edgesFrom g) (tType (From e)) (tID (From e))
                       (edgeMap_AddEdge (adjacency (edgesFrom g) (From e)) (with_id uuid e)),
        edgesTo := NamespacedSyncMap_Set (edgesTo g) (tType (To e)) (tID (To e))
                       (edgeMap_AddEdge (adjacency (edgesTo g) (To e)) (with_id uuid e))\<rparr>, None)"
  using assms Validate_with_id[of uuid e]
  by (simp add: AddEdge_def with_id_def[symmetric] Let_def adjacency_def split: option.splits)

lemma in_set_update: "(k, v) \<in> set (AList.update k v al)"
  by (induction al) auto

lemma edgeMap_AddEdge_group:
  "\<exists>m. map_of (edgeMap_AddEdge em e) (e_type e) = Some m \<and> (e_id e, e) \<in> set m"
  by (cases "map_of em (e_type e)") (simp_all add: edgeMap_AddEdge_def update_conv' in_set_update)

lemma edgeMap_edges_group:
  "map_of em t = Some m \<Longrightarrow> (k, e) \<in> set m \<Longrightarrow> e \<in> set (edgeMap_edges em)"
  by (force simp: edgeMap_edges_def dest: map_of_SomeD)

lemma edgeMap_RangeType_AddEdge:
  "e \<in> set (edgeMap_RangeType (edgeMap_AddEdge em e) (e_type e) collect [])"
  "e \<in> set (edgeMap_RangeType (edgeMap_AddEdge em e) AnyType collect [])"
proof -
  obtain m where m: "map_of (edgeMap_AddEdge em e) (e_type e) = Some m" "(e_id e, e) \<in> set m"
    using edgeMap_AddEdge_group by blast
  then have all: "e \<in> set (edgeMap_edges (edgeMap_AddEdge em e))"
    by (rule edgeMap_edges_group)
  from m have "e \<in> set (map snd m)" by force
  with m all show "e \<in> set (edgeMap_RangeType (edgeMap_AddEdge em e) (e_type e) collect [])"
    by (simp add: edgeMap_RangeType_def iterate_collect)
  from all show "e \<in> set (edgeMap_RangeType (edgeMap_AddEdge em e) AnyType collect [])"
    by (simp add: edgeMap_RangeType_def iterate_collect)
qed

text \<open>
  C6. An edge with a non-empty type and non-empty endpoints that both name nodes of the
  graph is added without error. Afterwards the edge (with the generated id if it came
  without one) is found by \<^verbatim>\<open>GetEdge\<close> and \<^verbatim>\<open>HasEdge\<close> under its type and id, and
  \<^verbatim>\<open>EdgesFrom\<close> on its From node and \<^verbatim>\<open>EdgesTo\<close> on its To node enumerate it, with
  the type of the edge as well as with the wildcard.
\<close>

theorem AddEdge_success:
  assumes "e_type e \<noteq> ''''" "\<not> TypedID_empty (From e)" "\<not> TypedID_empty (To e)"
    and "HasNode g (From e)" "HasNode g (To e)"
    and "AddEdge uuid g e = (g', err)" and "e' = with_id uuid e"
  shows "err = None
    \<and> GetEdge g' (Edge_TypedID e') = Some e' \<and> HasEdge g' (Edge_TypedID e')
    \<and> e' \<in> set (EdgesFrom g' (e_type e') (From e') collect [])
    \<and> e' \<in> set (EdgesFrom g' AnyType (From e') collect [])
    \<and> e' \<in> set (EdgesTo g' (e_type e') (To e') collect [])
    \<and> e' \<in> set (EdgesTo g' AnyType (To e') collect [])"
proof -
  note ok = AddEdge_ok[OF assms(1-5), of uuid]
  from ok assms(6) have err: "err = None" by simp
  from ok assms(6,7) have get: "GetEdge g' (Edge_TypedID e') = Some e'"
    by (auto simp: GetEdge_def Edge_TypedID_def Get_Set)
  from ok assms(6,7) have
    "EdgesFrom g' t (From e') collect [] =
       edgeMap_RangeType (edgeMap_AddEdge (adjacency (edgesFrom g) (From e)) e') t collect []"
    "EdgesTo g' t (To e') collect [] =
       edgeMap_RangeType (edgeMap_AddEdge (adjacency (edgesTo g) (To e)) e') t collect []" for t
    by (auto simp: EdgesFrom_def EdgesTo_def Get_Set)
  with err get edgeMap_RangeType_AddEdge[of e'] show ?thesis
    by (simp add: HasEdge_def)
qed

theorem AddEdge_success_witness:
  "e_type edgeAB \<noteq> '''' \<and> \<not> TypedID_empty (From edgeAB) \<and> \<not> TypedID_empty (To edgeAB)
   \<and> HasNode graph_nodes (From edgeAB) \<and> HasNode graph_nodes (To edgeAB)
   \<and> snd (AddEdge ''x'' graph_nodes edgeAB) = None
   \<and> GetEdge (fst (AddEdge ''x'' graph_nodes edgeAB)) (TypedID ''friend'' ''1'') = Some edgeAB
   \<and> edgeAB \<in> set (EdgesFrom (fst (AddEdge ''x'' graph_nodes edgeAB)) ''friend'' (TypedID ''user'' ''A'') collect [])
   \<and> edgeAB \<in> set (EdgesTo (fst (AddEdge ''x'' graph_nodes edgeAB)) AnyType (TypedID ''user'' ''B'') collect [])"
proof -
  have h: "e_type edgeAB \<noteq> ''''" "\<not> TypedID_empty (From edgeAB)" "\<not> TypedID_empty (To edgeAB)"
    "HasNode graph_nodes (From edgeAB)" "HasNode graph_nodes (To edgeAB)"
    by code_simp+
  have e: "with_id ''x'' edgeAB = edgeAB" "Edge_TypedID edgeAB = TypedID ''friend'' ''1''"
    "e_type edgeAB = ''friend''" "From edgeAB = TypedID ''user'' ''A''" "To edgeAB = TypedID ''user'' ''B''"
    by (simp_all add: with_id_def edgeAB_def Edge_TypedID_def)
  from AddEdge_success[OF h, of "''x''" "fst (AddEdge ''x'' graph_nodes edgeAB)"
      "snd (AddEdge ''x'' graph_nodes edgeAB)" edgeAB] h e
  show ?thesis by simp
qed

text \<open>
  C1. \<^verbatim>\<open>AddEdge\<close> returns a validation error exactly when the type or an endpoint of
  the edge is empty, a not-found error exactly when the edge is valid and an endpoint names
  no node of the graph, and an error in exactly these cases. Whenever it returns an error
  the graph it leaves is the graph it found: the edges map and both adjacency indices (and
  the nodes) are unchanged.
\<close>

theorem AddEdge_error:
  "(snd (AddEdge uuid g e) = Some ValidationError \<longleftrightarrow>
      e_type e = '''' \<or> TypedID_empty (From e) \<or> TypedID_empty (To e))
   \<and> ((\<exists>t. snd (AddEdge uuid g e) = Some (NotFoundError t)) \<longleftrightarrow>
        \<not> (e_type e = '''' \<or> TypedID_empty (From e) \<or> TypedID_empty (To e))
        \<and> (\<not> HasNode g (From e) \<or> \<not> HasNode g (To e)))
   \<and> (snd (AddEdge uuid g e) \<noteq> None \<longleftrightarrow>
        e_type e = '''' \<or> TypedID_empty (From e) \<or> TypedID_empty (To e)
        \<or> \<not> HasNode g (From e) \<or> \<not> HasNode g (To e))
   \<and> (snd (AddEdge uuid g e) \<noteq> None \<longrightarrow> fst (AddEdge uuid g e) = g)"
proof -
  have "AddEdge uuid g e =
    (if e_type e = '''' \<or> TypedID_empty (From e) \<or> TypedID_empty (To e) then (g, Some ValidationError)
     else if \<not> HasNode g (From e) then (g, Some (NotFoundError (From e)))
     else if \<not> HasNode g (To e) then (g, Some (NotFoundError (To e)))
     else (fst (AddEdge uuid g e), None))"
    using Validate_with_id[of uuid e] AddEdge_ok[of e g uuid]
    by (simp add: AddEdge_def with_id_def[symmetric] Let_def)
  moreover have "snd (AddEdge uuid g e) = None"
    if "\<not> (e_type e = '''' \<or> TypedID_empty (From e) \<or> TypedID_empty (To e))"
      "HasNode g (From e)" "HasNode g (To e)"
    using that AddEdge_ok[of e g uuid] by simp
  ultimately show ?thesis
    by (cases "e_type e = '''' \<or> TypedID_empty (From e) \<or> TypedID_empty (To e)";
        cases "HasNode g (From e)"; cases "HasNode g (To e)") simp_all
qed

theorem AddEdge_error_witness:
  "snd (AddEdge ''x'' graph_nodes edgeAZ) = Some (NotFoundError (TypedID ''dog'' ''Z''))
   \<and> fst (AddEdge ''x'' graph_nodes edgeAZ) = graph_nodes"
proof -
  have s: "snd (AddEdge ''x'' graph_nodes edgeAZ) = Some (NotFoundError (TypedID ''dog'' ''Z''))"
    by code_simp
  then have "snd (AddEdge ''x'' graph_nodes edgeAZ) \<noteq> None" by simp
  with AddEdge_error[of "''x''" graph_nodes edgeAZ] have "fst (AddEdge ''x'' graph_nodes edgeAZ) = graph_nodes"
    by blast
  with s show ?thesis by simp
qed

section \<open>An edge added again under the type and id of a stored edge\<close>

text \<open>
  \<^verbatim>\<open>AddEdge\<close> overwrites the entry of the edges map when the type and id of the new
  edge are those of a stored edge, and lists the new edge under its endpoints, but it does
  not remove the old edge from the adjacency lists of the old endpoints. The three
  theorems of this section evaluate the code after such a call.
\<close>

text \<open>
  C3 fails on the code. After three nodes and the edges \<open>edgeAB\<close> and \<open>edgeBC\<close> (same
  type and id) are added to the empty graph, the edges map holds \<open>edgeBC\<close> alone, while
  the outbound list of A and the inbound list of B still hold \<open>edgeAB\<close>: an edge of the
  adjacency indices that is not in the edges map.
\<close>

theorem indices_inconsistent_after_reuse:
  "snd (AddEdge ''x'' (run (butlast ops_reuse)) edgeBC) = None
   \<and> indices_consistent (run (butlast ops_reuse))
   \<and> GetEdge (run ops_reuse) (TypedID ''friend'' ''1'') = Some edgeBC
   \<and> stored_edges (run ops_reuse) = [edgeBC]
   \<and> EdgesFrom (run ops_reuse) AnyType (TypedID ''user'' ''A'') collect [] = [edgeAB]
   \<and> EdgesTo (run ops_reuse) AnyType (TypedID ''user'' ''B'') collect [] = [edgeAB]
   \<and> \<not> indices_consistent (run ops_reuse)"
  by code_simp

text \<open>
  The consistency that holds before the second \<^verbatim>\<open>AddEdge\<close> is not an empty one: the
  edge \<open>edgeAB\<close> is stored and listed under A and under B.
\<close>

theorem indices_inconsistent_after_reuse_witness:
  "stored_edges (run (butlast ops_reuse)) = [edgeAB]
   \<and> adjacency_entries (edgesFrom (run (butlast ops_reuse))) = [(TypedID ''user'' ''A'', edgeAB)]
   \<and> adjacency_entries (edgesTo (run (butlast ops_reuse))) = [(TypedID ''user'' ''B'', edgeAB)]
   \<and> indices_consistent (run (butlast ops_reuse))
   \<and> adjacency_entries (edgesFrom (run ops_reuse))
        = [(TypedID ''user'' ''A'', edgeAB), (TypedID ''user'' ''B'', edgeBC)]
   \<and> stored_edges (run ops_reuse) = [edgeBC]
   \<and> \<not> indices_consistent (run ops_reuse)"
proof -
  have "stored_edges (run (butlast ops_reuse)) = [edgeAB]"
    "adjacency_entries (edgesFrom (run (butlast ops_reuse))) = [(TypedID ''user'' ''A'', edgeAB)]"
    "adjacency_entries (edgesTo (run (butlast ops_reuse))) = [(TypedID ''user'' ''B'', edgeAB)]"
    "adjacency_entries (edgesFrom (run ops_reuse))
        = [(TypedID ''user'' ''A'', edgeAB), (TypedID ''user'' ''B'', edgeBC)]"
    by code_simp+
  with indices_inconsistent_after_reuse show ?thesis by simp
qed

text \<open>
  C2 fails on the code. In the graph of \<open>ops_reuse\<close>, \<^verbatim>\<open>DelNode\<close> of A removes the node
  A and calls \<^verbatim>\<open>DelEdge\<close> on \<open>edgeAB\<close>, the edge of the outbound list of A; that call
  looks the edge up by type and id, finds \<open>edgeBC\<close> and removes that one. The edge
  \<open>edgeAB\<close>, whose From endpoint is A, is still enumerated by \<^verbatim>\<open>EdgesFrom\<close> on A and by
  \<^verbatim>\<open>EdgesTo\<close> on its To endpoint B.
\<close>

theorem DelNode_leaves_outbound_edge:
  "From edgeAB = TypedID ''user'' ''A'' \<and> To edgeAB = TypedID ''user'' ''B''
   \<and> \<not> HasNode (DelNode (run ops_reuse) (TypedID ''user'' ''A'')) (TypedID ''user'' ''A'')
   \<and> EdgesFrom (DelNode (run ops_reuse) (TypedID ''user'' ''A'')) AnyType (TypedID ''user'' ''A'') collect []
        = [edgeAB]
   \<and> EdgesTo (DelNode (run ops_reuse) (TypedID ''user'' ''A'')) AnyType (TypedID ''user'' ''B'') collect []
        = [edgeAB]"
  by code_simp

text \<open>
  C7 fails on the code for \<^verbatim>\<open>DelNode\<close>. In the graph of \<open>ops_stale\<close> the node A is not
  stored, but its outbound list still holds \<open>edgeAB\<close>; \<^verbatim>\<open>DelNode\<close> of A removes the stored
  edge \<open>edgeBC\<close> of the same type and id, and the number of edges goes from 1 to 0.
\<close>

theorem DelNode_of_missing_node_removes_edge:
  "\<not> HasNode (run ops_stale) (TypedID ''user'' ''A'')
   \<and> GetEdge (run ops_stale) (TypedID ''friend'' ''1'') = Some edgeBC
   \<and> NamespacedSyncMap_Len (edges (run ops_stale)) ''friend'' = 1
   \<and> \<not> HasEdge (DelNode (run ops_stale) (TypedID ''user'' ''A'')) (TypedID ''friend'' ''1'')
   \<and> NamespacedSyncMap_Len (edges (DelNode (run ops_stale) (TypedID ''user'' ''A''))) ''friend'' = 0
   \<and> EdgesFrom (DelNode (run ops_stale) (TypedID ''user'' ''A'')) AnyType (TypedID ''user'' ''B'') collect []
        = []"
  by code_simp

text \<open>Deleting an edge that is not stored changes nothing.\<close>

lemma DelEdge_absent: "\<not> HasEdge g tid \<Longrightarrow> DelEdge g tid = g"
  by (auto simp: HasEdge_def GetEdge_def DelEdge_def Delete_absent split: option.splits)

section \<open>Properties of Import\<close>

lemma AddEdge_cases:
  "AddEdge uuid g e =
    (if e_type e = '''' \<or> TypedID_empty (From e) \<or> TypedID_empty (To e) then (g, Some ValidationError)
     else if \<not> HasNode g (From e) then (g, Some (NotFoundError (From e)))
     else if \<not> HasNode g (To e) then (g, Some (NotFoundError (To e)))
     else (g\<lparr>edges := NamespacedSyncMap_Set (edges g) (e_type e) (e_id (with_id uuid e)) (with_id uuid e),
        edgesFrom := NamespacedSyncMap_Set (edgesFrom g) (tType (From e)) (tID (From e))
                       (edgeMap_AddEdge (adjacency (edgesFrom g) (From e)) (with_id uuid e)),
        edgesTo := NamespacedSyncMap_Set (edgesTo g) (tType (To e)) (tID (To e))
                       (edgeMap_AddEdge (adjacency (edgesTo g) (To e)) (with_id uuid e))\<rparr>, None))"
proof (cases "e_type e = [] \<or> TypedID_empty (From e) \<or> TypedID_empty (To e)")
  case True
  then show ?thesis
    using Validate_with_id[of uuid e] by (simp add: AddEdge_def with_id_def[symmetric] Let_def)
next
  case False
  show ?thesis
  proof (cases "HasNode g (From e) \<and> HasNode g (To e)")
    case True
    with False AddEdge_ok[of e g uuid] show ?thesis by simp
  next
    case no: False
    with False show ?thesis
      using Validate_with_id[of uuid e] by (auto simp add: AddEdge_def with_id_def[symmetric] Let_def)
  qed
qed

lemma AddEdge_failed: "snd (AddEdge uuid g e) \<noteq> None \<Longrightarrow> fst (AddEdge uuid g e) = g"
  by (auto simp: AddEdge_cases split: if_splits)

lemma AddEdge_add_or_skip: "fst (AddEdge uuid g e) = add_or_skip uuid g e"
  using AddEdge_failed[of uuid g e]
  by (cases "AddEdge uuid g e") (auto simp: add_or_skip_def split: option.splits)

lemma AddEdge_nodes [simp]: "nodes (fst (AddEdge uuid g e)) = nodes g"
  by (subst AddEdge_cases) simp

lemma HasNode_AddEdge [simp]: "HasNode (fst (AddEdge uuid g e)) tid = HasNode g tid"
  by (simp add: HasNode_def GetNode_def)

lemma HasEdge_AddEdge:
  "HasEdge (fst (AddEdge uuid g e)) tid =
     (HasEdge g tid \<or> snd (AddEdge uuid g e) = None \<and> tid = Edge_TypedID (with_id uuid e))"
  by (cases tid, subst (1 2) AddEdge_cases)
     (auto simp: HasEdge_def GetEdge_def Get_Set Edge_TypedID_def split: option.splits)

lemma AddNode_others [simp]:
  "edges (AddNode uuid g n) = edges g" "edgesFrom (AddNode uuid g n) = edgesFrom g"
  "edgesTo (AddNode uuid g n) = edgesTo g"
  by (simp_all add: AddNode_def Let_def)

lemma HasNode_AddNode:
  "HasNode (AddNode uuid g n) tid =
     (HasNode g tid \<or> tid = TypedID (n_type n) (if n_id n = '''' then uuid else n_id n))"
  by (cases tid) (auto simp: HasNode_def GetNode_def AddNode_def Get_Set Let_def split: option.splits)

lemma Import_nodes_foldl:
  "Import_nodes ids i g ns = foldl (\<lambda>g (j, n). AddNode (ids j) g n) g (enumerate i ns)"
  by (induction ns arbitrary: i g) simp_all

lemma Import_edges_foldl:
  "Import_edges ids i g es = foldl (\<lambda>g (j, e). add_or_skip (ids j) g e) g (enumerate i es)"
  by (induction es arbitrary: i g) (simp_all add: AddEdge_add_or_skip)

lemma Import_edges_append:
  "Import_edges ids i g (es1 @ es2) = Import_edges ids (i + length es1) (Import_edges ids i g es1) es2"
  by (induction es1 arbitrary: i g) simp_all

lemma HasNode_Import_edges [simp]: "HasNode (Import_edges ids i g es) tid = HasNode g tid"
  by (induction es arbitrary: i g) simp_all

lemma HasEdge_Import_edges_mono: "HasEdge g tid \<Longrightarrow> HasEdge (Import_edges ids i g es) tid"
  by (induction es arbitrary: i g) (simp_all add: HasEdge_AddEdge)

lemma HasNode_Import_nodes_mono: "HasNode g tid \<Longrightarrow> HasNode (Import_nodes ids i g ns) tid"
  by (induction ns arbitrary: i g) (simp_all add: HasNode_AddNode)

lemma HasEdge_Import_nodes [simp]: "HasEdge (Import_nodes ids i g ns) tid = HasEdge g tid"
  by (induction ns arbitrary: i g) (simp_all add: HasEdge_def GetEdge_def)

lemma HasNode_Import_nodes_member:
  "n \<in> set ns \<Longrightarrow> n_id n \<noteq> '''' \<Longrightarrow> HasNode (Import_nodes ids i g ns) (Node_TypedID n)"
  by (induction ns arbitrary: i g)
     (auto simp: HasNode_AddNode Node_TypedID_def intro: HasNode_Import_nodes_mono)

text \<open>
  C8. \<^verbatim>\<open>Import\<close> always returns no error. The graph it leaves is the one obtained by
  adding every node of the snapshot in order and then every edge in order, an edge whose
  \<^verbatim>\<open>AddEdge\<close> fails being skipped. Nothing is rolled back: the nodes and edges of the
  graph before the call, every node of the snapshot (under its own id when it has one) and
  every edge whose \<^verbatim>\<open>AddEdge\<close> succeeded at its turn are in the graph at the end,
  whatever happens to the other edges.
\<close>

theorem Import_best_effort:
  "snd (Import ids g exp) = None
   \<and> fst (Import ids g exp) =
       foldl (\<lambda>g (j, e). add_or_skip (ids j) g e)
         (foldl (\<lambda>g (j, n). AddNode (ids j) g n) g (enumerate 0 (Nodes exp)))
         (enumerate (length (Nodes exp)) (Edges exp))
   \<and> (\<forall>tid. HasNode g tid \<longrightarrow> HasNode (fst (Import ids g exp)) tid)
   \<and> (\<forall>tid. HasEdge g tid \<longrightarrow> HasEdge (fst (Import ids g exp)) tid)
   \<and> (\<forall>n \<in> set (Nodes exp). n_id n \<noteq> '''' \<longrightarrow> HasNode (fst (Import ids g exp)) (Node_TypedID n))
   \<and> (\<forall>k < length (Edges exp).
         snd (AddEdge (ids (length (Nodes exp) + k))
                (fst (Import ids g (exp\<lparr>Edges := take k (Edges exp)\<rparr>))) (Edges exp ! k)) = None
         \<longrightarrow> HasEdge (fst (Import ids g exp))
               (Edge_TypedID (with_id (ids (length (Nodes exp) + k)) (Edges exp ! k))))"
proof -
  let ?g1 = "Import_nodes ids 0 g (Nodes exp)"
  let ?l = "length (Nodes exp)"
  have later: "HasEdge (Import_edges ids ?l ?g1 (Edges exp))
                 (Edge_TypedID (with_id (ids (?l + k)) (Edges exp ! k)))"
    if k: "k < length (Edges exp)"
      and ok: "snd (AddEdge (ids (?l + k)) (Import_edges ids ?l ?g1 (take k (Edges exp))) (Edges exp ! k)) = None"
    for k
  proof -
    let ?gk = "Import_edges ids ?l ?g1 (take k (Edges exp))"
    have split: "Edges exp = take k (Edges exp) @ (Edges exp ! k) # drop (Suc k) (Edges exp)"
      using k by (simp add: id_take_nth_drop)
    have "Import_edges ids ?l ?g1 (Edges exp) =
        Import_edges ids (Suc (?l + k)) (fst (AddEdge (ids (?l + k)) ?gk (Edges exp ! k))) (drop (Suc k) (Edges exp))"
      using k by (subst split, subst Import_edges_append) (simp add: min_def)
    moreover have "HasEdge (fst (AddEdge (ids (?l + k)) ?gk (Edges exp ! k)))
        (Edge_TypedID (with_id (ids (?l + k)) (Edges exp ! k)))"
      using ok by (simp add: HasEdge_AddEdge)
    ultimately show ?thesis by (simp add: HasEdge_Import_edges_mono)
  qed
  show ?thesis
    using later
    by (simp add: Import_def Let_def Import_nodes_foldl[symmetric] Import_edges_foldl[symmetric]
        HasNode_Import_nodes_mono HasEdge_Import_edges_mono HasNode_Import_nodes_member)
qed


theorem Import_best_effort_witness:
  "snd (Import (\<lambda>i. ''x'') NewGraphCacheMap snapshot_bad_edge) = None
   \<and> snd (AddEdge ''x'' graph_nodes edgeAZ) \<noteq> None
   \<and> HasNode (fst (Import (\<lambda>i. ''x'') NewGraphCacheMap snapshot_bad_edge)) (TypedID ''user'' ''A'')
   \<and> HasEdge (fst (Import (\<lambda>i. ''x'') NewGraphCacheMap snapshot_bad_edge)) (TypedID ''pet'' ''2'')"
proof -
  let ?ids = "\<lambda>i::nat. ''x''"
  have h1: "nodeA \<in> set (Nodes snapshot_bad_edge)" "n_id nodeA \<noteq> ''''"
    by (simp_all add: snapshot_bad_edge_def nodeA_def)
  have h2: "1 < length (Edges snapshot_bad_edge)"
    by (simp add: snapshot_bad_edge_def)
  have h3: "snd (AddEdge (?ids (length (Nodes snapshot_bad_edge) + 1))
                (fst (Import ?ids NewGraphCacheMap
                   (snapshot_bad_edge\<lparr>Edges := take 1 (Edges snapshot_bad_edge)\<rparr>)))
                (Edges snapshot_bad_edge ! 1)) = None"
    by code_simp
  have e: "Edge_TypedID (with_id (?ids (length (Nodes snapshot_bad_edge) + 1)) (Edges snapshot_bad_edge ! 1))
      = TypedID ''pet'' ''2''" "Node_TypedID nodeA = TypedID ''user'' ''A''"
    by (simp_all add: snapshot_bad_edge_def edgeAC_def with_id_def Edge_TypedID_def
        Node_TypedID_def nodeA_def)
  have bad: "snd (AddEdge ''x'' graph_nodes edgeAZ) \<noteq> None"
    by code_simp
  from Import_best_effort[of ?ids NewGraphCacheMap snapshot_bad_edge] h1 h2 h3 e bad
  show ?thesis by metis
qed

section \<open>Export followed by Import\<close>

lemma set_all_entries:
  "set (all_entries n) = {(TypedID ns k, v) | ns c k v. (ns, c) \<in> set n \<and> (k, v) \<in> set c}"
  by (auto simp: all_entries_def) force

lemma set_update_subset: "set (AList.update k v al) \<subseteq> insert (k, v) (set al)"
  by (induction al) auto

lemma set_delete_subset: "set (AList.delete k al) \<subseteq> set al"
  by (auto simp: AList.delete_eq)

lemma entries_update:
  "set (all_entries (AList.update ns c n)) \<subseteq>
     set (all_entries n) \<union> {(TypedID ns k, v) | k v. (k, v) \<in> set c}"
  using set_update_subset[of ns c n] by (auto simp: set_all_entries) blast+

lemma entries_Set:
  "set (all_entries (NamespacedSyncMap_Set n ns k v)) \<subseteq> insert (TypedID ns k, v) (set (all_entries n))"
proof (cases "map_of n ns")
  case None
  have "set (all_entries (AList.update ns [(k, v)] (AList.update ns [] n)))
      \<subseteq> set (all_entries (AList.update ns [] n)) \<union> {(TypedID ns k, v)}"
    using entries_update[of ns "[(k, v)]" "AList.update ns [] n"] by auto
  also have "\<dots> \<subseteq> set (all_entries n) \<union> {(TypedID ns k, v)}"
    using entries_update[of ns "[]" n] by auto
  finally show ?thesis using None
    by (simp add: NamespacedSyncMap_Set_def newSyncCache_def SyncCache_Set_def update_conv')
next
  case (Some c)
  then have c: "(ns, c) \<in> set n" by (rule map_of_SomeD)
  have "set (all_entries (AList.update ns (AList.update k v c) n))
      \<subseteq> set (all_entries n) \<union> {(TypedID ns k', v') | k' v'. (k', v') \<in> set (AList.update k v c)}"
    by (rule entries_update)
  also have "\<dots> \<subseteq> insert (TypedID ns k, v) (set (all_entries n))"
    using set_update_subset[of k v c] c by (auto simp: set_all_entries)
  finally show ?thesis using Some
    by (simp add: NamespacedSyncMap_Set_def SyncCache_Set_def)
qed

lemma entries_Delete:
  "set (all_entries (NamespacedSyncMap_Delete n ns k)) \<subseteq> set (all_entries n)"
proof (cases "map_of n ns")
  case None
  then show ?thesis by (simp add: NamespacedSyncMap_Delete_def)
next
  case (Some c)
  then have c: "(ns, c) \<in> set n" by (rule map_of_SomeD)
  have "set (all_entries (AList.update ns (AList.delete k c) n))
      \<subseteq> set (all_entries n) \<union> {(TypedID ns k', v') | k' v'. (k', v') \<in> set (AList.delete k c)}"
    by (rule entries_update)
  also have "\<dots> \<subseteq> set (all_entries n)"
    using set_delete_subset[of k c] c by (auto simp: set_all_entries) blast
  finally show ?thesis using Some
    by (simp add: NamespacedSyncMap_Delete_def SyncCache_Delete_def)
qed

lemma distinct_Set: "distinct (map fst n) \<Longrightarrow> distinct (map fst (NamespacedSyncMap_Set n ns k v))"
  by (simp add: NamespacedSyncMap_Set_def Let_def distinct_update split: option.splits)

lemma distinct_Delete: "distinct (map fst n) \<Longrightarrow> distinct (map fst (NamespacedSyncMap_Delete n ns k))"
  by (simp add: NamespacedSyncMap_Delete_def distinct_update split: option.splits)

lemma Get_entries:
  assumes "distinct (map fst n)"
  shows "(NamespacedSyncMap_Get n ns k \<noteq> None) = (TypedID ns k \<in> fst ` set (all_entries n))"
proof
  assume "NamespacedSyncMap_Get n ns k \<noteq> None"
  then obtain c v where "map_of n ns = Some c" "map_of c k = Some v"
    by (auto simp: NamespacedSyncMap_Get_def SyncCache_Get_def split: option.splits)
  then have "(ns, c) \<in> set n" "(k, v) \<in> set c" by (auto dest: map_of_SomeD)
  then have "(TypedID ns k, v) \<in> set (all_entries n)" by (auto simp: set_all_entries)
  then show "TypedID ns k \<in> fst ` set (all_entries n)" by force
next
  assume "TypedID ns k \<in> fst ` set (all_entries n)"
  then obtain c v where c: "(ns, c) \<in> set n" "(k, v) \<in> set c"
    by (auto simp: set_all_entries)
  with assms have "map_of n ns = Some c" by simp
  moreover from c have "k \<in> fst ` set c" by force
  then have "map_of c k \<noteq> None" by (simp add: map_of_eq_None_iff)
  ultimately show "NamespacedSyncMap_Get n ns k \<noteq> None"
    by (simp add: NamespacedSyncMap_Get_def SyncCache_Get_def)
qed

lemma entries_ok_Set:
  assumes "entries_ok P n" and "P (TypedID ns k, v)"
  shows "entries_ok P (NamespacedSyncMap_Set n ns k v)"
proof -
  have "\<forall>x \<in> set (all_entries (NamespacedSyncMap_Set n ns k v)). P x"
    using entries_Set[of n ns k v] assms by (auto simp: entries_ok_def list_all_iff)
  with assms(1) show ?thesis
    by (simp add: entries_ok_def list_all_iff distinct_Set)
qed

lemma entries_ok_Delete:
  assumes "entries_ok P n"
  shows "entries_ok P (NamespacedSyncMap_Delete n ns k)"
proof -
  have "\<forall>x \<in> set (all_entries (NamespacedSyncMap_Delete n ns k)). P x"
    using entries_Delete[of n ns k] assms by (auto simp: entries_ok_def list_all_iff)
  with assms show ?thesis
    by (simp add: entries_ok_def list_all_iff distinct_Delete)
qed

lemma iterate_invariant:
  assumes "\<And>x s. P s \<Longrightarrow> P (snd (f x s))" and "P s"
  shows "P (iterate xs f s)"
  using assms(2)
proof (induction xs arbitrary: s)
  case Nil
  then show ?case by simp
next
  case (Cons x xs)
  from assms(1)[OF Cons.prems, of x] Cons.IH[of "snd (f x s)"] show ?case
    by (simp add: case_prod_beta Let_def)
qed

lemma DelEdge_nodes [simp]: "nodes (DelEdge g tid) = nodes g"
  by (cases "NamespacedSyncMap_Get (edges g) (tType tid) (tID tid)")
     (simp_all add: DelEdge_def Let_def split: option.splits)

lemma DelEdge_edges:
  "edges (DelEdge g tid) = NamespacedSyncMap_Delete (edges g) (tType tid) (tID tid)"
  by (cases "NamespacedSyncMap_Get (edges g) (tType tid) (tID tid)")
     (simp_all add: DelEdge_def Let_def split: option.splits)

lemma graph_wf_AddNode:
  assumes "uuid \<noteq> ''''" and "graph_wf g"
  shows "graph_wf (AddNode uuid g n)"
proof -
  let ?n = "if n_id n = '''' then n\<lparr>n_id := uuid\<rparr> else n"
  have "node_entry_ok (TypedID (n_type ?n) (n_id ?n), ?n)"
    using assms(1) by (simp add: node_entry_ok_def Node_TypedID_def)
  with assms(2) have "entries_ok node_entry_ok (NamespacedSyncMap_Set (nodes g) (n_type ?n) (n_id ?n) ?n)"
    by (simp only: graph_wf_def entries_ok_Set)
  with assms(2) show ?thesis
    by (simp add: graph_wf_def AddNode_def Let_def)
qed

lemma graph_wf_AddEdge:
  assumes "uuid \<noteq> ''''" and "graph_wf g"
  shows "graph_wf (fst (AddEdge uuid g e))"
proof (cases "snd (AddEdge uuid g e)")
  case (Some err)
  with AddEdge_failed[of uuid g e] assms(2) show ?thesis by simp
next
  case None
  let ?e = "with_id uuid e"
  from None have valid: "Validate ?e = None"
    by (simp add: AddEdge_cases Validate_with_id split: if_splits)
  from None have ed: "edges (fst (AddEdge uuid g e)) = NamespacedSyncMap_Set (edges g) (e_type e) (e_id ?e) ?e"
    by (simp add: AddEdge_cases split: if_splits)
  have "edge_entry_ok (TypedID (e_type e) (e_id ?e), ?e)"
    using assms(1) valid by (simp add: edge_entry_ok_def Edge_TypedID_def) (simp add: with_id_def)
  with assms(2) have "entries_ok edge_entry_ok (NamespacedSyncMap_Set (edges g) (e_type e) (e_id ?e) ?e)"
    by (simp only: graph_wf_def entries_ok_Set)
  with assms(2) ed show ?thesis
    by (simp add: graph_wf_def)
qed

lemma graph_wf_DelEdge: "graph_wf g \<Longrightarrow> graph_wf (DelEdge g tid)"
  by (simp add: graph_wf_def DelEdge_edges entries_ok_Delete)

lemma graph_wf_DelNode:
  assumes "graph_wf g"
  shows "graph_wf (DelNode g tid)"
proof -
  define g1 where "g1 = (case NamespacedSyncMap_Get (edgesFrom g) (tType tid) (tID tid) of
           None \<Rightarrow> g
         | Some em \<Rightarrow> edgeMap_Range em (\<lambda>e g'. (True, DelEdge g' (Edge_TypedID e))) g)"
  have "graph_wf (iterate xs (\<lambda>e g'. (True, DelEdge g' (Edge_TypedID e))) g)" for xs
    by (rule iterate_invariant[where P = graph_wf]) (simp_all add: graph_wf_DelEdge assms)
  with assms have g1: "graph_wf g1"
    by (simp add: g1_def edgeMap_Range_def split: option.splits)
  have "DelNode g tid = g1\<lparr>nodes := NamespacedSyncMap_Delete (nodes g1) (tType tid) (tID tid)\<rparr>"
    by (simp add: DelNode_def g1_def Let_def)
  with g1 show ?thesis
    by (simp add: graph_wf_def entries_ok_Delete)
qed

lemma graph_wf_empty: "graph_wf NewGraphCacheMap"
  by (simp add: graph_wf_def entries_ok_def NewGraphCacheMap_def newCacheMap_def all_entries_def)

lemma graph_wf_apply_op: "uuid_nonempty op \<Longrightarrow> graph_wf g \<Longrightarrow> graph_wf (apply_op g op)"
  by (cases op) (simp_all add: graph_wf_AddNode graph_wf_AddEdge graph_wf_DelNode graph_wf_DelEdge)

lemma graph_wf_foldl:
  "\<forall>op \<in> set ops. uuid_nonempty op \<Longrightarrow> graph_wf g \<Longrightarrow> graph_wf (foldl apply_op g ops)"
  by (induction ops arbitrary: g) (simp_all add: graph_wf_apply_op)

lemma graph_wf_run: "\<forall>op \<in> set ops. uuid_nonempty op \<Longrightarrow> graph_wf (run ops)"
  by (simp add: run_def graph_wf_foldl graph_wf_empty)

lemma SyncCache_Range_collect: "SyncCache_Range c (\<lambda>key. collect) acc = acc @ map snd c"
proof -
  have "iterate c (\<lambda>(key, val). collect val) acc = acc @ map snd c"
    by (induction c arbitrary: acc) (auto simp: collect_def)
  then show ?thesis by (simp add: SyncCache_Range_def)
qed

lemma fold_caches_collect:
  "fold (\<lambda>(ns, c) s. SyncCache_Range c (\<lambda>key. collect) s) n acc
     = acc @ map snd (all_entries n)"
proof -
  have "fold (\<lambda>(ns, c) s. SyncCache_Range c (\<lambda>key. collect) s) n acc
     = acc @ concat (map (\<lambda>(ns, c). map snd c) n)"
    by (induction n arbitrary: acc) (auto simp: SyncCache_Range_collect)
  moreover have "concat (map (\<lambda>(ns, c). map snd c) n) = map snd (all_entries n)"
    by (induction n) (auto simp: all_entries_def)
  ultimately show ?thesis by simp
qed

lemma Range_collect:
  "NamespacedSyncMap_Range n ns (\<lambda>key. collect) acc =
     acc @ (if ns = AnyType then map snd (all_entries n)
            else case map_of n ns of Some c \<Rightarrow> map snd c | None \<Rightarrow> [])"
proof (cases "ns = AnyType")
  case True
  then show ?thesis by (simp add: NamespacedSyncMap_Range_def fold_caches_collect)
next
  case False
  then show ?thesis
    by (simp add: NamespacedSyncMap_Range_def SyncCache_Range_collect split: option.splits)
qed

lemma fold_Range_collect:
  "fold (\<lambda>ns s. NamespacedSyncMap_Range n ns (\<lambda>key. collect) s) nss acc =
     acc @ concat (map (\<lambda>ns. if ns = AnyType then map snd (all_entries n)
            else case map_of n ns of Some c \<Rightarrow> map snd c | None \<Rightarrow> []) nss)"
  by (induction nss arbitrary: acc) (simp_all add: Range_collect)

lemma in_set_concat_map: "v \<in> set (concat (map f xs)) \<longleftrightarrow> (\<exists>x \<in> set xs. v \<in> set (f x))"
  by (induction xs) auto

lemma set_all_values:
  assumes "distinct (map fst n)"
  shows "set (fold (\<lambda>ns s. NamespacedSyncMap_Range n ns (\<lambda>key. collect) s)
            (NamespacedSyncMap_Namespaces n) []) = snd ` set (all_entries n)"
    (is "?L = ?R")
proof
  have visit: "set (if ns = AnyType then map snd (all_entries n)
            else case map_of n ns of Some c \<Rightarrow> map snd c | None \<Rightarrow> []) \<subseteq> ?R" for ns
  proof (cases "map_of n ns")
    case None
    then show ?thesis by auto
  next
    case (Some c)
    then have "(ns, c) \<in> set n" by (rule map_of_SomeD)
    then have "snd ` set c \<subseteq> ?R" by (force simp: set_all_entries)
    with Some show ?thesis by auto
  qed
  show "?L \<subseteq> ?R"
  proof
    fix v assume "v \<in> ?L"
    then obtain ns where "v \<in> set (if ns = AnyType then map snd (all_entries n)
            else case map_of n ns of Some c \<Rightarrow> map snd c | None \<Rightarrow> [])"
      by (simp only: fold_Range_collect append_Nil in_set_concat_map) blast
    with visit[of ns] show "v \<in> ?R" by blast
  qed
  show "?R \<subseteq> ?L"
  proof
    fix v assume "v \<in> ?R"
    then obtain ns c k where c: "(ns, c) \<in> set n" "(k, v) \<in> set c"
      by (auto simp: set_all_entries)
    then have ns: "ns \<in> set (NamespacedSyncMap_Namespaces n)"
      by (force simp: NamespacedSyncMap_Namespaces_def)
    from c assms have m: "map_of n ns = Some c" by simp
    have "v \<in> set (if ns = AnyType then map snd (all_entries n)
            else case map_of n ns of Some c \<Rightarrow> map snd c | None \<Rightarrow> [])"
    proof (cases "ns = AnyType")
      case True
      with \<open>v \<in> ?R\<close> show ?thesis by simp
    next
      case False
      with m c(2) show ?thesis by force
    qed
    with ns show "v \<in> ?L"
      by (simp only: fold_Range_collect append_Nil in_set_concat_map) blast
  qed
qed

lemma set_Export:
  assumes "graph_wf g"
  shows "set (Nodes (Export g)) = snd ` set (all_entries (nodes g))"
    and "set (Edges (Export g)) = snd ` set (all_entries (edges g))"
  using assms set_all_values[of "nodes g"] set_all_values[of "edges g"]
  by (simp_all add: Export_def RangeNodes_def RangeEdges_def graph_wf_def entries_ok_def)

lemma HasNode_Import_nodes:
  "\<forall>n \<in> set ns. n_id n \<noteq> '''' \<Longrightarrow>
   HasNode (Import_nodes ids i g ns) tid = (HasNode g tid \<or> tid \<in> Node_TypedID ` set ns)"
  by (induction ns arbitrary: i g) (auto simp: HasNode_AddNode Node_TypedID_def)

lemma HasEdge_Import_edges:
  "\<forall>e \<in> set es. e_id e \<noteq> '''' \<and> Validate e = None \<and> HasNode g (From e) \<and> HasNode g (To e) \<Longrightarrow>
   HasEdge (Import_edges ids i g es) tid = (HasEdge g tid \<or> tid \<in> Edge_TypedID ` set es)"
proof (induction es arbitrary: i g)
  case Nil
  then show ?case by simp
next
  case (Cons e es)
  from Cons.prems have e: "e_id e \<noteq> ''''" "Validate e = None" "HasNode g (From e)" "HasNode g (To e)"
    by simp_all
  then have ok: "snd (AddEdge (ids i) g e) = None" "with_id (ids i) e = e"
    by (simp_all add: AddEdge_cases with_id_def Validate_def split: if_splits)
  have "\<forall>e' \<in> set es. e_id e' \<noteq> '''' \<and> Validate e' = None
      \<and> HasNode (fst (AddEdge (ids i) g e)) (From e') \<and> HasNode (fst (AddEdge (ids i) g e)) (To e')"
    using Cons.prems by simp
  from Cons.IH[OF this] ok show ?case
    by (auto simp: HasEdge_AddEdge)
qed

lemma stored_edges_entries: "stored_edges g = map snd (all_entries (edges g))"
  by (induction "edges g" arbitrary: g) (simp_all add: stored_edges_def all_entries_def map_concat comp_def case_prod_beta)

lemma HasNode_entries:
  assumes "graph_wf g"
  shows "HasNode g tid = (tid \<in> Node_TypedID ` snd ` set (all_entries (nodes g)))"
proof -
  from assms have d: "distinct (map fst (nodes g))"
    and ok: "\<forall>x \<in> set (all_entries (nodes g)). Node_TypedID (snd x) = fst x"
    by (simp_all add: graph_wf_def entries_ok_def list_all_iff node_entry_ok_def)
  have "HasNode g tid = (tid \<in> fst ` set (all_entries (nodes g)))"
    using Get_entries[OF d, of "tType tid" "tID tid"]
    by (cases "NamespacedSyncMap_Get (nodes g) (tType tid) (tID tid)")
       (auto simp: HasNode_def GetNode_def)
  also have "fst ` set (all_entries (nodes g)) = Node_TypedID ` snd ` set (all_entries (nodes g))"
    using ok by (force simp: image_iff)
  finally show ?thesis .
qed

lemma HasEdge_entries:
  assumes "graph_wf g"
  shows "HasEdge g tid = (tid \<in> Edge_TypedID ` snd ` set (all_entries (edges g)))"
proof -
  from assms have d: "distinct (map fst (edges g))"
    and ok: "\<forall>x \<in> set (all_entries (edges g)). Edge_TypedID (snd x) = fst x"
    by (simp_all add: graph_wf_def entries_ok_def list_all_iff edge_entry_ok_def)
  have "HasEdge g tid = (tid \<in> fst ` set (all_entries (edges g)))"
    using Get_entries[OF d, of "tType tid" "tID tid"]
    by (cases "NamespacedSyncMap_Get (edges g) (tType tid) (tID tid)")
       (auto simp: HasEdge_def GetEdge_def)
  also have "fst ` set (all_entries (edges g)) = Edge_TypedID ` snd ` set (all_entries (edges g))"
    using ok by (force simp: image_iff)
  finally show ?thesis .
qed

lemma empty_graph_has_nothing [simp]:
  "HasNode NewGraphCacheMap tid = False" "HasEdge NewGraphCacheMap tid = False"
  by (simp_all add: HasNode_def GetNode_def HasEdge_def GetEdge_def NewGraphCacheMap_def
      newCacheMap_def NamespacedSyncMap_Get_def)

text \<open>
  The round trip for every well-formed graph whose stored edges have their endpoints in
  the graph: the graph imported from the export has the same (type, id) pairs of nodes and
  of edges.
\<close>

lemma round_trip_wf:
  assumes wf: "graph_wf g"
    and ends: "\<forall>e \<in> set (stored_edges g). HasNode g (From e) \<and> HasNode g (To e)"
  shows "HasNode (fst (Import ids NewGraphCacheMap (Export g))) tid = HasNode g tid"
    and "HasEdge (fst (Import ids NewGraphCacheMap (Export g))) tid = HasEdge g tid"
proof -
  let ?g1 = "Import_nodes ids 0 NewGraphCacheMap (Nodes (Export g))"
  let ?l = "length (Nodes (Export g))"
  have ids: "\<forall>n \<in> set (Nodes (Export g)). n_id n \<noteq> ''''"
    using wf by (auto simp: set_Export graph_wf_def entries_ok_def list_all_iff node_entry_ok_def)
  have n1: "HasNode ?g1 t = HasNode g t" for t
    using HasNode_Import_nodes[OF ids, of ids 0 NewGraphCacheMap t] wf
    by (simp add: HasNode_entries set_Export)
  show "HasNode (fst (Import ids NewGraphCacheMap (Export g))) tid = HasNode g tid"
    by (simp add: Import_def Let_def n1)
  have "\<forall>x \<in> set (all_entries (edges g)). e_id (snd x) \<noteq> '''' \<and> Validate (snd x) = None"
    using wf by (simp add: graph_wf_def entries_ok_def list_all_iff edge_entry_ok_def)
  with ends have es: "\<forall>e \<in> set (Edges (Export g)).
      e_id e \<noteq> '''' \<and> Validate e = None \<and> HasNode ?g1 (From e) \<and> HasNode ?g1 (To e)"
    using wf by (auto simp: set_Export stored_edges_entries n1)
  have "HasEdge (Import_edges ids ?l ?g1 (Edges (Export g))) tid = HasEdge g tid"
    using HasEdge_Import_edges[OF es, of ids ?l tid] wf
    by (simp add: HasEdge_entries[OF wf] set_Export)
  then show "HasEdge (fst (Import ids NewGraphCacheMap (Export g))) tid = HasEdge g tid"
    by (simp add: Import_def Let_def)
qed

text \<open>
  The round trip for the graphs built from the empty graph by a sequence of operations.
\<close>

lemma round_trip_built:
  assumes "\<forall>op \<in> set ops. uuid_nonempty op"
    and "\<forall>e \<in> set (stored_edges (run ops)). HasNode (run ops) (From e) \<and> HasNode (run ops) (To e)"
  shows "{tid. HasNode (fst (Import ids NewGraphCacheMap (Export (run ops)))) tid} = {tid. HasNode (run ops) tid}
       \<and> {tid. HasEdge (fst (Import ids NewGraphCacheMap (Export (run ops)))) tid} = {tid. HasEdge (run ops) tid}"
  using round_trip_wf[OF graph_wf_run[OF assms(1)] assms(2)] by simp

text \<open>
  C4. Let G be a well-formed graph whose stored edges all have their endpoints in G.
  Importing the export of G into the empty graph gives a graph with exactly the node
  (type, id) pairs and exactly the edge (type, id) pairs of G. The namespaces and the
  entries of G are lists in any order, and \<^verbatim>\<open>Export\<close> visits them in that order, so the
  statement holds for every iteration order. Every graph that \<^verbatim>\<open>AddNode\<close>, \<^verbatim>\<open>AddEdge\<close>,
  \<^verbatim>\<open>DelNode\<close> and \<^verbatim>\<open>DelEdge\<close> build from the empty graph is well formed
  (\<open>graph_wf_run\<close>), the identifier generator never yielding the empty string.
\<close>

theorem Import_Export_round_trip:
  assumes "graph_wf g"
    and "\<forall>e \<in> set (stored_edges g). HasNode g (From e) \<and> HasNode g (To e)"
  shows "{tid. HasNode (fst (Import ids NewGraphCacheMap (Export g))) tid} = {tid. HasNode g tid}
       \<and> {tid. HasEdge (fst (Import ids NewGraphCacheMap (Export g))) tid} = {tid. HasEdge g tid}"
  using round_trip_wf[OF assms] by simp

theorem Import_Export_round_trip_witness:
  "graph_wf (run ops_two_edges)
   \<and> stored_edges (run ops_two_edges) = [edgeAB, edgeAC]
   \<and> list_all (\<lambda>e. HasNode (run ops_two_edges) (From e) \<and> HasNode (run ops_two_edges) (To e))
        (stored_edges (run ops_two_edges))
   \<and> HasNode (run ops_two_edges) (TypedID ''dog'' ''C'')
   \<and> HasEdge (run ops_two_edges) (TypedID ''pet'' ''2'')
   \<and> {tid. HasNode (fst (Import (\<lambda>i. ''x'') NewGraphCacheMap (Export (run ops_two_edges)))) tid}
        = {tid. HasNode (run ops_two_edges) tid}
   \<and> {tid. HasEdge (fst (Import (\<lambda>i. ''x'') NewGraphCacheMap (Export (run ops_two_edges)))) tid}
        = {tid. HasEdge (run ops_two_edges) tid}"
proof -
  have h1: "graph_wf (run ops_two_edges)"
    by (rule graph_wf_run) (simp add: ops_two_edges_def)
  have st: "stored_edges (run ops_two_edges) = [edgeAB, edgeAC]"
    by code_simp
  have h2: "\<forall>e \<in> set (stored_edges (run ops_two_edges)).
      HasNode (run ops_two_edges) (From e) \<and> HasNode (run ops_two_edges) (To e)"
    unfolding st by code_simp
  have more: "HasNode (run ops_two_edges) (TypedID ''dog'' ''C'')"
    "HasEdge (run ops_two_edges) (TypedID ''pet'' ''2'')"
    by code_simp+
  from Import_Export_round_trip[OF h1 h2, of "\<lambda>i. ''x''"] h1 h2 st more
  show ?thesis by (simp add: list_all_iff)
qed

section \<open>DelNode and DelEdge where the adjacency lists agree with the edges map\<close>

text \<open>
  \<^verbatim>\<open>DelNode\<close> of a node that is not stored changes nothing when no edge of its outbound
  list is stored; and it always removes the node.
\<close>

lemma cascade_absent:
  "\<forall>e \<in> set xs. \<not> HasEdge g (Edge_TypedID e) \<Longrightarrow>
   iterate xs (\<lambda>e g'. (True, DelEdge g' (Edge_TypedID e))) g = g"
  by (induction xs) (simp_all add: DelEdge_absent)

lemma DelNode_absent:
  assumes "\<not> HasNode g tid"
    and "\<forall>e \<in> set (edgeMap_edges (adjacency (edgesFrom g) tid)). \<not> HasEdge g (Edge_TypedID e)"
  shows "DelNode g tid = g"
proof -
  from assms(1) have "NamespacedSyncMap_Delete (nodes g) (tType tid) (tID tid) = nodes g"
    by (auto simp: HasNode_def GetNode_def Delete_absent split: option.splits)
  moreover have "(case NamespacedSyncMap_Get (edgesFrom g) (tType tid) (tID tid) of
           None \<Rightarrow> g
         | Some em \<Rightarrow> edgeMap_Range em (\<lambda>e g'. (True, DelEdge g' (Edge_TypedID e))) g) = g"
    using assms(2) by (auto simp: adjacency_def edgeMap_Range_def cascade_absent split: option.splits)
  ultimately show ?thesis by (simp add: DelNode_def Let_def)
qed

lemma adjacency_Set:
  "adjacency (NamespacedSyncMap_Set idx ns k v) Y = (if Y = TypedID ns k then v else adjacency idx Y)"
  by (cases Y) (auto simp: adjacency_def Get_Set)

lemma GetEdge_DelEdge:
  "GetEdge (DelEdge h k) k' = (if k' = k then None else GetEdge h k')"
  by (cases k; cases k') (auto simp: GetEdge_def DelEdge_edges Get_Delete)

lemma edgesFrom_DelEdge:
  "adjacency (edgesFrom (DelEdge h k)) Y =
     (case GetEdge h k of
        None \<Rightarrow> adjacency (edgesFrom h) Y
      | Some e \<Rightarrow> if Y = From e then edgeMap_DelEdge (adjacency (edgesFrom h) Y) k
                  else adjacency (edgesFrom h) Y)"
proof (cases "GetEdge h k")
  case None
  then show ?thesis by (simp add: DelEdge_def GetEdge_def Let_def)
next
  case (Some e)
  show ?thesis
  proof (cases "NamespacedSyncMap_Get (edgesFrom h) (tType (From e)) (tID (From e))")
    case None
    with Some show ?thesis
      by (auto simp: DelEdge_def GetEdge_def Let_def adjacency_def edgeMap_DelEdge_def split: option.splits)
  next
    case em: (Some em)
    with Some show ?thesis
      by (auto simp: DelEdge_def GetEdge_def Let_def adjacency_Set split: option.splits)
         (simp_all add: adjacency_def)
  qed
qed

lemma edgesTo_DelEdge:
  "adjacency (edgesTo (DelEdge h k)) Y =
     (case GetEdge h k of
        None \<Rightarrow> adjacency (edgesTo h) Y
      | Some e \<Rightarrow> if Y = To e then edgeMap_DelEdge (adjacency (edgesTo h) Y) k
                  else adjacency (edgesTo h) Y)"
proof (cases "GetEdge h k")
  case None
  then show ?thesis by (simp add: DelEdge_def GetEdge_def Let_def)
next
  case (Some e)
  show ?thesis
  proof (cases "NamespacedSyncMap_Get (edgesTo h) (tType (To e)) (tID (To e))")
    case None
    with Some show ?thesis
      by (auto simp: DelEdge_def GetEdge_def Let_def adjacency_def edgeMap_DelEdge_def split: option.splits)
  next
    case em: (Some em)
    with Some show ?thesis
      by (auto simp: DelEdge_def GetEdge_def Let_def adjacency_Set split: option.splits)
         (simp_all add: adjacency_def)
  qed
qed

lemma set_edgeMap_edges:
  "set (edgeMap_edges em) = {e. \<exists>t m k. (t, m) \<in> set em \<and> (k, e) \<in> set m}"
  by (force simp: edgeMap_edges_def)

lemma edgeMap_wf_iff:
  "edgeMap_wf em \<longleftrightarrow>
     distinct (map fst em)
     \<and> (\<forall>t m k e. (t, m) \<in> set em \<longrightarrow> (k, e) \<in> set m \<longrightarrow> e_type e = t \<and> e_id e = k)"
  by (auto simp: edgeMap_wf_def list_all_iff)

lemma edgeMap_wf_Nil [simp]: "edgeMap_wf []"
  by (simp add: edgeMap_wf_def)

lemma edgeMap_DelEdge_groups:
  assumes "(t, m) \<in> set (edgeMap_DelEdge em k)"
  shows "\<exists>m0. (t, m0) \<in> set em \<and> set m \<subseteq> set m0"
proof (cases "map_of em (tType k)")
  case None
  with assms show ?thesis by (auto simp: edgeMap_DelEdge_def)
next
  case (Some m1)
  then have m1: "(tType k, m1) \<in> set em" by (rule map_of_SomeD)
  from assms Some have "(t, m) \<in> insert (tType k, AList.delete (tID k) m1) (set em)"
    using set_update_subset[of "tType k" "AList.delete (tID k) m1" em]
    by (auto simp: edgeMap_DelEdge_def)
  then show ?thesis
  proof
    assume "(t, m) = (tType k, AList.delete (tID k) m1)"
    with m1 set_delete_subset[of "tID k" m1] show ?thesis by auto
  next
    assume "(t, m) \<in> set em"
    then show ?thesis by auto
  qed
qed

lemma edgeMap_DelEdge_subset:
  "set (edgeMap_edges (edgeMap_DelEdge em k)) \<subseteq> set (edgeMap_edges em)"
proof
  fix e assume "e \<in> set (edgeMap_edges (edgeMap_DelEdge em k))"
  then obtain t m i where "(t, m) \<in> set (edgeMap_DelEdge em k)" "(i, e) \<in> set m"
    by (auto simp: set_edgeMap_edges)
  with edgeMap_DelEdge_groups[of t m em k] show "e \<in> set (edgeMap_edges em)"
    by (auto simp: set_edgeMap_edges)
qed

lemma edgeMap_wf_DelEdge:
  assumes "edgeMap_wf em"
  shows "edgeMap_wf (edgeMap_DelEdge em k)"
proof -
  have "distinct (map fst (edgeMap_DelEdge em k))"
    using assms by (simp add: edgeMap_wf_iff edgeMap_DelEdge_def distinct_update split: option.splits)
  moreover have "e_type e = t \<and> e_id e = i"
    if "(t, m) \<in> set (edgeMap_DelEdge em k)" "(i, e) \<in> set m" for t m i e
    using edgeMap_DelEdge_groups[OF that(1)] that(2) assms by (auto simp: edgeMap_wf_iff)
  ultimately show ?thesis by (auto simp: edgeMap_wf_iff)
qed

lemma edgeMap_DelEdge_gone:
  assumes "edgeMap_wf em" and "e \<in> set (edgeMap_edges (edgeMap_DelEdge em k))"
  shows "Edge_TypedID e \<noteq> k"
proof
  assume k: "Edge_TypedID e = k"
  from assms(2) obtain t m i where tm: "(t, m) \<in> set (edgeMap_DelEdge em k)" "(i, e) \<in> set m"
    by (auto simp: set_edgeMap_edges)
  from edgeMap_wf_DelEdge[OF assms(1), of k] tm have ti: "e_type e = t" "e_id e = i"
    and d: "distinct (map fst (edgeMap_DelEdge em k))"
    by (auto simp: edgeMap_wf_iff)
  from ti k have t: "t = tType k" and i: "i = tID k"
    by (auto simp: Edge_TypedID_def)
  from edgeMap_DelEdge_groups[OF tm(1)] obtain m0 where "(t, m0) \<in> set em" by auto
  with assms(1) have "map_of em t = Some m0" by (simp add: edgeMap_wf_iff)
  with t have "map_of (edgeMap_DelEdge em k) t = Some (AList.delete (tID k) m0)"
    by (simp add: edgeMap_DelEdge_def update_conv')
  moreover from d tm(1) have "map_of (edgeMap_DelEdge em k) t = Some m" by simp
  ultimately have "m = AList.delete (tID k) m0" by simp
  with tm(2) i show False by (auto simp: AList.delete_eq)
qed

lemma unlisted_DelEdge: "unlisted h e \<Longrightarrow> unlisted (DelEdge h k) e"
  using edgeMap_DelEdge_subset[of "adjacency (edgesFrom h) (From e)" k]
    edgeMap_DelEdge_subset[of "adjacency (edgesTo h) (To e)" k]
  by (auto simp: unlisted_def GetEdge_DelEdge edgesFrom_DelEdge edgesTo_DelEdge list_all_iff
      split: option.splits)

lemma unlisted_after_DelEdge:
  assumes "edgeMap_wf (adjacency (edgesFrom h) (From e))"
    and "edgeMap_wf (adjacency (edgesTo h) (To e))"
    and "GetEdge h (Edge_TypedID e) = Some e"
  shows "unlisted (DelEdge h (Edge_TypedID e)) e"
  using assms edgeMap_DelEdge_gone[of "adjacency (edgesFrom h) (From e)" _ "Edge_TypedID e"]
    edgeMap_DelEdge_gone[of "adjacency (edgesTo h) (To e)" _ "Edge_TypedID e"]
  by (auto simp: unlisted_def GetEdge_DelEdge edgesFrom_DelEdge edgesTo_DelEdge list_all_iff)

lemma adjacency_wf_DelEdge:
  assumes "\<And>Y. edgeMap_wf (adjacency (edgesFrom h) Y)" and "\<And>Y. edgeMap_wf (adjacency (edgesTo h) Y)"
  shows "edgeMap_wf (adjacency (edgesFrom (DelEdge h k)) Y)"
    and "edgeMap_wf (adjacency (edgesTo (DelEdge h k)) Y)"
  using assms by (auto simp: edgesFrom_DelEdge edgesTo_DelEdge edgeMap_wf_DelEdge split: option.splits)

lemma unlisted_cascade:
  "unlisted h e \<Longrightarrow> unlisted (iterate ys (\<lambda>e g'. (True, DelEdge g' (Edge_TypedID e))) h) e"
  by (rule iterate_invariant[where P = "\<lambda>h. unlisted h e"]) (simp_all add: unlisted_DelEdge)

lemma cascade_unlists:
  assumes "\<And>Y. edgeMap_wf (adjacency (edgesFrom h) Y)" and "\<And>Y. edgeMap_wf (adjacency (edgesTo h) Y)"
    and "\<forall>e \<in> set ys. GetEdge h (Edge_TypedID e) = Some e \<or> unlisted h e"
  shows "\<forall>e \<in> set ys. unlisted (iterate ys (\<lambda>e g'. (True, DelEdge g' (Edge_TypedID e))) h) e"
  using assms
proof (induction ys arbitrary: h)
  case Nil
  then show ?case by simp
next
  case (Cons e0 ys)
  let ?h1 = "DelEdge h (Edge_TypedID e0)"
  have first: "unlisted ?h1 e0"
    using Cons.prems(3) unlisted_DelEdge[of h e0] unlisted_after_DelEdge[OF Cons.prems(1,2), of e0]
    by auto
  have rest: "\<forall>e \<in> set ys. GetEdge ?h1 (Edge_TypedID e) = Some e \<or> unlisted ?h1 e"
  proof
    fix e assume e: "e \<in> set ys"
    with Cons.prems(3) consider "unlisted h e" | "GetEdge h (Edge_TypedID e) = Some e" by auto
    then show "GetEdge ?h1 (Edge_TypedID e) = Some e \<or> unlisted ?h1 e"
    proof cases
      case 1
      then show ?thesis by (simp add: unlisted_DelEdge)
    next
      case 2
      show ?thesis
      proof (cases "Edge_TypedID e = Edge_TypedID e0")
        case True
        with 2 unlisted_after_DelEdge[OF Cons.prems(1,2), of e] show ?thesis by simp
      next
        case False
        with 2 show ?thesis by (simp add: GetEdge_DelEdge)
      qed
    qed
  qed
  from Cons.IH[of ?h1, OF adjacency_wf_DelEdge[OF Cons.prems(1,2)] rest]
    unlisted_cascade[OF first, of ys]
  show ?case by simp
qed

lemma cascade_shrinks:
  "set (edgeMap_edges (adjacency (edgesFrom (iterate ys (\<lambda>e g'. (True, DelEdge g' (Edge_TypedID e))) h)) Y))
     \<subseteq> set (edgeMap_edges (adjacency (edgesFrom h) Y))"
proof (induction ys arbitrary: h)
  case Nil
  then show ?case by simp
next
  case (Cons e0 ys)
  have "set (edgeMap_edges (adjacency (edgesFrom (DelEdge h (Edge_TypedID e0))) Y))
      \<subseteq> set (edgeMap_edges (adjacency (edgesFrom h) Y))"
    using edgeMap_DelEdge_subset[of "adjacency (edgesFrom h) Y" "Edge_TypedID e0"]
    by (auto simp: edgesFrom_DelEdge split: option.splits)
  with Cons.IH[of "DelEdge h (Edge_TypedID e0)"] show ?case by auto
qed

lemma DelNode_state:
  "DelNode g X =
     (iterate (edgeMap_edges (adjacency (edgesFrom g) X)) (\<lambda>e g'. (True, DelEdge g' (Edge_TypedID e))) g)
       \<lparr>nodes := NamespacedSyncMap_Delete (nodes g) (tType X) (tID X)\<rparr>"
proof -
  have "nodes (iterate xs (\<lambda>e g'. (True, DelEdge g' (Edge_TypedID e))) g) = nodes g" for xs
    by (induction xs arbitrary: g) simp_all
  then show ?thesis
    by (simp add: DelNode_def Let_def adjacency_def edgeMap_Range_def edgeMap_edges_def
        split: option.splits)
qed

lemma set_RangeType_collect:
  "set (edgeMap_RangeType em t collect []) \<subseteq> set (edgeMap_edges em)"
proof (cases "t = AnyType")
  case True
  then show ?thesis by (simp add: edgeMap_RangeType_def iterate_collect)
next
  case False
  show ?thesis
  proof (cases "map_of em t")
    case None
    with False show ?thesis by (simp add: edgeMap_RangeType_def)
  next
    case (Some m)
    with False edgeMap_edges_group[OF Some] show ?thesis
      by (auto simp: edgeMap_RangeType_def iterate_collect)
  qed
qed

lemma adjacency_in_entries:
  "adjacency idx Y = [] \<or> (Y, adjacency idx Y) \<in> set (all_entries idx)"
proof (cases "NamespacedSyncMap_Get idx (tType Y) (tID Y)")
  case None
  then show ?thesis by (simp add: adjacency_def)
next
  case (Some em)
  then obtain c where "map_of idx (tType Y) = Some c" "map_of c (tID Y) = Some em"
    by (auto simp: NamespacedSyncMap_Get_def SyncCache_Get_def split: option.splits)
  then have "(tType Y, c) \<in> set idx" "(tID Y, em) \<in> set c"
    by (auto dest: map_of_SomeD)
  then have "(TypedID (tType Y) (tID Y), em) \<in> set (all_entries idx)"
    unfolding set_all_entries by blast
  with Some show ?thesis by (simp add: adjacency_def)
qed

lemma adjacency_wf:
  assumes "list_all (\<lambda>x. edgeMap_wf (snd x)) (all_entries idx)"
  shows "edgeMap_wf (adjacency idx Y)"
  using adjacency_in_entries[of idx Y] assms by (auto simp: list_all_iff)

text \<open>
  The cascade where the indices agree: when the adjacency lists are well formed and every
  edge of the outbound list of X is the edge stored under its type and id and starts at X,
  then after \<^verbatim>\<open>DelNode\<close> of X the node is gone, no edge of that list is in the edges map,
  \<^verbatim>\<open>EdgesFrom\<close> on X enumerates nothing and \<^verbatim>\<open>EdgesTo\<close> on the To endpoint of such an
  edge does not enumerate it.
\<close>

lemma DelNode_cascade:
  assumes wfF: "list_all (\<lambda>x. edgeMap_wf (snd x)) (all_entries (edgesFrom g))"
    and wfT: "list_all (\<lambda>x. edgeMap_wf (snd x)) (all_entries (edgesTo g))"
    and listed: "\<forall>e \<in> set (edgeMap_edges (adjacency (edgesFrom g) X)).
                   GetEdge g (Edge_TypedID e) = Some e \<and> From e = X"
    and e: "e \<in> set (edgeMap_edges (adjacency (edgesFrom g) X))"
  shows "\<not> HasNode (DelNode g X) X"
    and "\<not> HasEdge (DelNode g X) (Edge_TypedID e)"
    and "EdgesFrom (DelNode g X) t X collect [] = []"
    and "e \<notin> set (EdgesTo (DelNode g X) t (To e) collect [])"
proof -
  let ?xs = "edgeMap_edges (adjacency (edgesFrom g) X)"
  let ?h = "iterate ?xs (\<lambda>e g'. (True, DelEdge g' (Edge_TypedID e))) g"
  have un: "\<forall>e \<in> set ?xs. unlisted ?h e"
    by (rule cascade_unlists) (simp_all add: listed adjacency_wf[OF wfF] adjacency_wf[OF wfT])
  have fields: "edges (DelNode g X) = edges ?h" "edgesFrom (DelNode g X) = edgesFrom ?h"
    "edgesTo (DelNode g X) = edgesTo ?h"
    by (simp_all add: DelNode_state)
  show "\<not> HasNode (DelNode g X) X"
    by (simp add: DelNode_state HasNode_def GetNode_def Get_Delete)
  from e un have ue: "unlisted ?h e" by simp
  then show "\<not> HasEdge (DelNode g X) (Edge_TypedID e)"
    by (simp add: unlisted_def HasEdge_def GetEdge_def fields)
  have "set (edgeMap_edges (adjacency (edgesFrom ?h) X)) = {}"
  proof (rule ccontr)
    assume "set (edgeMap_edges (adjacency (edgesFrom ?h) X)) \<noteq> {}"
    then obtain e' where e': "e' \<in> set (edgeMap_edges (adjacency (edgesFrom ?h) X))"
      by (cases "edgeMap_edges (adjacency (edgesFrom ?h) X)") auto
    with cascade_shrinks[of ?xs g X] have "e' \<in> set ?xs" by auto
    with un listed have "unlisted ?h e'" "From e' = X" by auto
    with e' show False by (auto simp: unlisted_def list_all_iff)
  qed
  with set_RangeType_collect[of "adjacency (edgesFrom ?h) X" t]
  show "EdgesFrom (DelNode g X) t X collect [] = []"
    by (auto simp: EdgesFrom_def fields adjacency_def split: option.splits)
  from ue have "\<forall>e' \<in> set (edgeMap_edges (adjacency (edgesTo ?h) (To e))). Edge_TypedID e' \<noteq> Edge_TypedID e"
    by (simp add: unlisted_def list_all_iff)
  then have "e \<notin> set (edgeMap_edges (adjacency (edgesTo ?h) (To e)))" by auto
  with set_RangeType_collect[of "adjacency (edgesTo ?h) (To e)" t]
  show "e \<notin> set (EdgesTo (DelNode g X) t (To e) collect [])"
    by (auto simp: EdgesTo_def fields adjacency_def split: option.splits)
qed

lemma DelNode_cascade_example:
  "edgeMap_edges (adjacency (edgesFrom (run ops_two_edges)) (TypedID ''user'' ''A'')) = [edgeAB, edgeAC]
   \<and> \<not> HasNode (DelNode (run ops_two_edges) (TypedID ''user'' ''A'')) (TypedID ''user'' ''A'')
   \<and> \<not> HasEdge (DelNode (run ops_two_edges) (TypedID ''user'' ''A'')) (TypedID ''pet'' ''2'')
   \<and> EdgesFrom (DelNode (run ops_two_edges) (TypedID ''user'' ''A'')) AnyType (TypedID ''user'' ''A'') collect [] = []
   \<and> edgeAC \<notin> set (EdgesTo (DelNode (run ops_two_edges) (TypedID ''user'' ''A'')) AnyType (TypedID ''dog'' ''C'') collect [])"
proof -
  let ?g = "run ops_two_edges" and ?X = "TypedID ''user'' ''A''"
  have xs: "edgeMap_edges (adjacency (edgesFrom ?g) ?X) = [edgeAB, edgeAC]"
    by code_simp
  have wfF: "list_all (\<lambda>x. edgeMap_wf (snd x)) (all_entries (edgesFrom ?g))"
    and wfT: "list_all (\<lambda>x. edgeMap_wf (snd x)) (all_entries (edgesTo ?g))"
    by code_simp+
  have listed: "\<forall>e \<in> set (edgeMap_edges (adjacency (edgesFrom ?g) ?X)).
      GetEdge ?g (Edge_TypedID e) = Some e \<and> From e = ?X"
    unfolding xs by code_simp
  have e: "edgeAC \<in> set (edgeMap_edges (adjacency (edgesFrom ?g) ?X))"
    unfolding xs by simp
  have k: "Edge_TypedID edgeAC = TypedID ''pet'' ''2''" "To edgeAC = TypedID ''dog'' ''C''"
    by (simp_all add: Edge_TypedID_def edgeAC_def)
  from DelNode_cascade(1,2)[OF wfF wfT listed e] DelNode_cascade(3,4)[OF wfF wfT listed e, of AnyType]
    xs k show ?thesis by simp
qed

end
